theory Spec2Isabelle
  imports Main "HOL-Library.Code_Target_Nat"
begin

section \<open>Python strings\<close>

text \<open>
  A Python \<open>str\<close> is a sequence of Unicode code points; the Armenian marks the
  stages look for lie beyond one byte, so a string is a list of code points.
  ASCII literals are written \<open>lit ''...''\<close>.
  The character classes of the Python library (\<open>str.isdigit\<close>, \<open>str.strip\<close>,
  the regular expression class \<open>\w\<close>) are modelled on their ASCII part: the decimal
  digits, the six ASCII whitespace characters, and letters, digits and underscore.
\<close>

type_synonym pystr = "nat list"

abbreviation lit :: "string \<Rightarrow> pystr" where
  "lit s \<equiv> map of_char s"

text \<open>\<open>str(n)\<close> for a non-negative integer: its decimal digits.\<close>

function str_nat :: "nat \<Rightarrow> pystr" where
  "str_nat n = (if n < 10 then [48 + n] else str_nat (n div 10) @ [48 + n mod 10])"
  by pat_completeness auto
termination
  by (relation "measure id") auto

declare str_nat.simps [simp del]

definition is_digit :: "nat \<Rightarrow> bool" where
  "is_digit c \<longleftrightarrow> 48 \<le> c \<and> c \<le> 57"

text \<open>\<open>s.isdigit()\<close>: non-empty and digits only.\<close>

definition py_isdigit :: "pystr \<Rightarrow> bool" where
  "py_isdigit s \<longleftrightarrow> s \<noteq> [] \<and> list_all is_digit s"

text \<open>\<open>int(s)\<close> on a string of decimal digits.\<close>

definition py_int :: "pystr \<Rightarrow> nat" where
  "py_int s = foldl (\<lambda>a c. 10 * a + (c - 48)) 0 s"

text \<open>\<open>s.split(sep, 1)\<close> at a separator character that occurs in \<open>s\<close>.\<close>

definition split_once :: "nat \<Rightarrow> pystr \<Rightarrow> pystr \<times> pystr" where
  "split_once sep s = (takeWhile (\<lambda>c. c \<noteq> sep) s, tl (dropWhile (\<lambda>c. c \<noteq> sep) s))"


text \<open>A value between double quotes, as in \<open>name="value"\<close>.\<close>

definition quoted :: "pystr \<Rightarrow> pystr" where
  "quoted v = [34] @ v @ [34]"

text \<open>\<open>str(i)\<close> for an integer.\<close>

definition str_int :: "int \<Rightarrow> pystr" where
  "str_int i = (if i < 0 then 45 # str_nat (nat (- i)) else str_nat (nat i))"

text \<open>Exceptions a stage can raise.\<close>

datatype py_error = ValueError

text \<open>\<open>s.split(sep)\<close> for a separator of one character: the pieces between the
  separators, empty pieces included; never the empty list.\<close>

fun split_char :: "nat \<Rightarrow> pystr \<Rightarrow> pystr list" where
  "split_char sep [] = [[]]"
| "split_char sep (c # cs) =
     (if c = sep then [] # split_char sep cs
      else (case split_char sep cs of w # ws \<Rightarrow> (c # w) # ws | [] \<Rightarrow> [[c]]))"

text \<open>\<open>raw.split("\n\n")\<close>: the leftmost blank-line separators, without overlap.\<close>

fun split_blank :: "pystr \<Rightarrow> pystr list" where
  "split_blank [] = [[]]"
| "split_blank [c] = [[c]]"
| "split_blank (c # d # cs) =
     (if c = 10 \<and> d = 10 then [] # split_blank cs
      else (case split_blank (d # cs) of w # ws \<Rightarrow> (c # w) # ws | [] \<Rightarrow> [[c]]))"

text \<open>\<open>s.splitlines()\<close>: the line boundaries of Python (\<open>\n\<close>, \<open>\r\<close>, \<open>\r\n\<close>,
  \<open>\v\<close>, \<open>\f\<close>, the separators 1C to 1E, NEL, LS and PS); no empty last line after a
  final boundary.\<close>

definition is_linebreak :: "nat \<Rightarrow> bool" where
  "is_linebreak c \<longleftrightarrow> c \<in> {10, 11, 12, 13, 28, 29, 30, 133, 8232, 8233}"

fun splitlines :: "pystr \<Rightarrow> pystr list" where
  "splitlines [] = []"
| "splitlines [c] = (if is_linebreak c then [[]] else [[c]])"
| "splitlines (c # d # cs) =
     (if c = 13 \<and> d = 10 then [] # splitlines cs
      else if is_linebreak c then [] # splitlines (d # cs)
      else (case splitlines (d # cs) of [] \<Rightarrow> [[c]] | w # ws \<Rightarrow> (c # w) # ws))"

text \<open>The whitespace of \<open>str.strip()\<close> and \<open>str.isspace()\<close>.\<close>

definition is_space :: "nat \<Rightarrow> bool" where
  "is_space c \<longleftrightarrow> (9 \<le> c \<and> c \<le> 13) \<or> (28 \<le> c \<and> c \<le> 32) \<or> c = 133 \<or> c = 160
     \<or> c = 5760 \<or> (8192 \<le> c \<and> c \<le> 8202) \<or> c = 8232 \<or> c = 8233 \<or> c = 8239
     \<or> c = 8287 \<or> c = 12288"

definition py_strip :: "pystr \<Rightarrow> pystr" where
  "py_strip s = rev (dropWhile is_space (rev (dropWhile is_space s)))"

text \<open>\<open>s.startswith(p)\<close>.\<close>

fun startswith :: "pystr \<Rightarrow> pystr \<Rightarrow> bool" where
  "startswith s [] = True"
| "startswith [] (p # ps) = False"
| "startswith (c # cs) (p # ps) = (c = p \<and> startswith cs ps)"

text \<open>\<open>int(s)\<close> on an arbitrary string: surrounding whitespace is dropped, a sign may
  lead, and the digits may be grouped by single underscores; anything else raises
  \<open>ValueError\<close>.\<close>

fun digits_grouped :: "pystr \<Rightarrow> bool" where
  "digits_grouped [] = False"
| "digits_grouped [c] = is_digit c"
| "digits_grouped (c # d # cs) =
     (is_digit c \<and> (if d = 95 then cs \<noteq> [] \<and> digits_grouped cs else digits_grouped (d # cs)))"

definition int_of_str :: "pystr \<Rightarrow> py_error + int" where
  "int_of_str s =
     (let t = py_strip s;
          signed = (t \<noteq> [] \<and> (hd t = 45 \<or> hd t = 43));
          body = (if signed then tl t else t)
      in if digits_grouped body
         then Inr ((if signed \<and> hd t = 45 then - 1 else 1)
                    * int (py_int (filter (\<lambda>c. c \<noteq> 95) body)))
         else Inl ValueError)"

section \<open>Stage 42 of prioel2conllu: renumber ids per sentence\<close>

text \<open>
  A Python \<open>dict\<close> keeps its keys in insertion order: assigning to a key that is present
  keeps its place, a new key goes to the end.
\<close>

type_synonym pydict = "(pystr \<times> pystr) list"

definition dict_get :: "pydict \<Rightarrow> pystr \<Rightarrow> pystr option" where
  "dict_get d k = map_of d k"

fun dict_set :: "pydict \<Rightarrow> pystr \<Rightarrow> pystr \<Rightarrow> pydict" where
  "dict_set [] k v = [(k, v)]"
| "dict_set ((k', v') # d) k v = (if k' = k then (k, v) # d else (k', v') # dict_set d k v)"

text \<open>An entry of \<open>token_buf\<close>: \<open>(indent, attrs, order)\<close> as \<open>parse_token_line\<close> returns it.\<close>

type_synonym token_entry = "pystr \<times> pydict \<times> pystr list"

definition is_hyphen_id :: "pystr \<Rightarrow> bool" where
  "is_hyphen_id id_value \<longleftrightarrow> 45 \<in> set id_value"

text \<open>First loop of \<open>build_id_mapping\<close>: sequential numbers for the non-hyphen ids.\<close>

fun assign_ids :: "token_entry list \<Rightarrow> (pystr \<rightharpoonup> pystr) \<Rightarrow> nat \<Rightarrow> (pystr \<rightharpoonup> pystr)" where
  "assign_ids [] mapping counter = mapping"
| "assign_ids ((indent, attrs, order) # tokens) mapping counter =
     (case dict_get attrs (lit ''id'') of
        None \<Rightarrow> assign_ids tokens mapping counter
      | Some tid \<Rightarrow>
          if tid = [] then assign_ids tokens mapping counter
          else if \<not> is_hyphen_id tid \<and> mapping tid = None
            then assign_ids tokens (mapping(tid \<mapsto> str_nat counter)) (counter + 1)
          else assign_ids tokens mapping counter)"

text \<open>Second loop: a hyphen id is mapped when both of its parts are known.\<close>

fun map_hyphen_ids :: "token_entry list \<Rightarrow> (pystr \<rightharpoonup> pystr) \<Rightarrow> (pystr \<rightharpoonup> pystr)" where
  "map_hyphen_ids [] mapping = mapping"
| "map_hyphen_ids ((indent, attrs, order) # tokens) mapping =
     (case dict_get attrs (lit ''id'') of
        None \<Rightarrow> map_hyphen_ids tokens mapping
      | Some tid \<Rightarrow>
          if tid = [] \<or> \<not> is_hyphen_id tid then map_hyphen_ids tokens mapping
          else (case split_once 45 tid of (a, b) \<Rightarrow>
            (case (mapping a, mapping b) of
               (Some na, Some nb) \<Rightarrow> map_hyphen_ids tokens (mapping(tid \<mapsto> na @ [45] @ nb))
             | _ \<Rightarrow> map_hyphen_ids tokens mapping)))"

definition build_id_mapping :: "token_entry list \<Rightarrow> (pystr \<rightharpoonup> pystr)" where
  "build_id_mapping tokens = map_hyphen_ids tokens (assign_ids tokens Map.empty 1)"

text \<open>\<open>map_head_id\<close>: a missing, empty or \<open>_\<close> head gets the default; a head that the
  map does not know is passed through.\<close>

definition map_head_id :: "pystr option \<Rightarrow> (pystr \<rightharpoonup> pystr) \<Rightarrow> bool \<Rightarrow> pystr" where
  "map_head_id head_id id_map is_hyphen =
     (case head_id of
        None \<Rightarrow> (if is_hyphen then lit ''_'' else lit ''0'')
      | Some h \<Rightarrow>
          if h = [] \<or> h = lit ''_'' then (if is_hyphen then lit ''_'' else lit ''0'')
          else (case id_map h of Some n \<Rightarrow> n | None \<Rightarrow> h))"

definition map_rel_attr :: "pystr \<Rightarrow> (pystr \<rightharpoonup> pystr) \<Rightarrow> pystr" where
  "map_rel_attr rel_val id_map =
     (if 58 \<notin> set rel_val then rel_val
      else (case split_once 58 rel_val of (lead, rest) \<Rightarrow>
        (case id_map lead of Some n \<Rightarrow> n @ [58] @ rest | None \<Rightarrow> rel_val)))"

text \<open>The body of the rewriting loop of \<open>process_sentence\<close> for one token: the
  attributes after the three assignments.\<close>

definition rewrite_attrs :: "(pystr \<rightharpoonup> pystr) \<Rightarrow> pydict \<Rightarrow> pydict" where
  "rewrite_attrs id_map attrs =
     (let tid = (case dict_get attrs (lit ''id'') of Some t \<Rightarrow> t | None \<Rightarrow> []);
          new_id = (case id_map tid of Some n \<Rightarrow> n | None \<Rightarrow> tid);
          attrs1 = dict_set attrs (lit ''id'') new_id;
          is_hyph = is_hyphen_id new_id;
          hid_old = dict_get attrs1 (lit ''head-id'');
          attrs2 = dict_set attrs1 (lit ''head-id'') (map_head_id hid_old id_map is_hyph)
      in (case dict_get attrs2 (lit ''rel'') of
            Some r \<Rightarrow> dict_set attrs2 (lit ''rel'') (map_rel_attr r id_map)
          | None \<Rightarrow> attrs2))"

definition rewrite_token :: "(pystr \<rightharpoonup> pystr) \<Rightarrow> token_entry \<Rightarrow> token_entry" where
  "rewrite_token id_map tk = (case tk of (indent, attrs, order) \<Rightarrow>
     (indent, rewrite_attrs id_map attrs, order))"

text \<open>\<open>token_buf\<close> after the loop of \<open>process_sentence\<close>: the map is built once, from
  the ids before any rewriting, then every token is rewritten.\<close>

definition rewrite_tokens :: "token_entry list \<Rightarrow> token_entry list" where
  "rewrite_tokens token_buf = map (rewrite_token (build_id_mapping token_buf)) token_buf"

text \<open>The id a token carries (\<open>attrs.get("id", "")\<close>).\<close>

definition tok_id :: "token_entry \<Rightarrow> pystr" where
  "tok_id tk = (case dict_get (fst (snd tk)) (lit ''id'') of Some t \<Rightarrow> t | None \<Rightarrow> [])"

definition atomic :: "token_entry \<Rightarrow> bool" where
  "atomic tk \<longleftrightarrow> \<not> is_hyphen_id (tok_id tk)"


text \<open>\<open>sep.join(parts)\<close>.\<close>

fun py_join :: "pystr \<Rightarrow> pystr list \<Rightarrow> pystr" where
  "py_join sep [] = []"
| "py_join sep [x] = x"
| "py_join sep (x # y # ys) = x @ sep @ py_join sep (y # ys)"

text \<open>\<open>serialize_token\<close>: the attributes in their original order, each once, then the
  attributes that were not on the line; \<open>seen\<close> is the set of keys written so far.\<close>

fun emit_ordered :: "pystr list \<Rightarrow> pydict \<Rightarrow> pystr list \<Rightarrow> pystr list \<Rightarrow> pystr list \<times> pystr list" where
  "emit_ordered [] attrs parts seen = (parts, seen)"
| "emit_ordered (k # order) attrs parts seen =
     (case dict_get attrs k of
        Some v \<Rightarrow>
          if k \<notin> set seen
          then emit_ordered order attrs (parts @ [k @ lit ''='' @ quoted v]) (k # seen)
          else emit_ordered order attrs parts seen
      | None \<Rightarrow> emit_ordered order attrs parts seen)"

fun emit_new :: "pydict \<Rightarrow> pystr list \<Rightarrow> pystr list \<Rightarrow> pystr list" where
  "emit_new [] parts seen = parts"
| "emit_new ((k, v) # attrs) parts seen =
     (if k \<notin> set seen then emit_new attrs (parts @ [k @ lit ''='' @ quoted v]) (k # seen)
      else emit_new attrs parts seen)"

definition serialize_token :: "token_entry \<Rightarrow> pystr" where
  "serialize_token tk = (case tk of (indent, attrs, order) \<Rightarrow>
     (case emit_ordered order attrs [] [] of (parts, seen) \<Rightarrow>
        indent @ lit ''<token '' @ py_join (lit '' '') (emit_new attrs parts seen)
          @ lit '' />'' @ [10]))"

text \<open>What \<open>process_sentence\<close> prints for one token when \<open>verbose\<close> is set: a line for
  a token whose id changed, with the old id, the new id, the old head and the new
  head. Nothing else is printed, and the function returns only the rewritten text.\<close>

type_synonym renumber_message = "pystr \<times> pystr \<times> pystr option \<times> pystr"

definition verbose_message :: "(pystr \<rightharpoonup> pystr) \<Rightarrow> token_entry \<Rightarrow> renumber_message list" where
  "verbose_message id_map tk =
     (let tid = tok_id tk;
          new_id = tok_id (rewrite_token id_map tk)
      in if tid \<noteq> new_id
         then [(tid, new_id, dict_get (fst (snd tk)) (lit ''head-id''),
                the (dict_get (fst (snd (rewrite_token id_map tk))) (lit ''head-id'')))]
         else [])"

text \<open>The token part of \<open>process_sentence\<close>: the rewritten token lines, and the
  messages printed on the way.\<close>

definition process_token_buf :: "bool \<Rightarrow> token_entry list \<Rightarrow> pystr list \<times> renumber_message list" where
  "process_token_buf verbose token_buf =
     (let id_map = build_id_mapping token_buf
      in (map (\<lambda>tk. serialize_token (rewrite_token id_map tk)) token_buf,
          if verbose then concat (map (verbose_message id_map) token_buf) else []))"

text \<open>The head a token carries.\<close>

definition tok_head :: "token_entry \<Rightarrow> pystr option" where
  "tok_head tk = dict_get (fst (snd tk)) (lit ''head-id'')"

text \<open>Ids that are already sequential: the atomic tokens carry \<open>1..N\<close> in order.\<close>

definition ids_sequential :: "token_entry list \<Rightarrow> bool" where
  "ids_sequential ts \<longleftrightarrow>
     map tok_id (filter atomic ts) = map str_nat [1..<Suc (length (filter atomic ts))]"

text \<open>An id map that changes no id it knows.\<close>

definition id_on_dom :: "(pystr \<rightharpoonup> pystr) \<Rightarrow> bool" where
  "id_on_dom m \<longleftrightarrow> (\<forall>k v. m k = Some v \<longrightarrow> v = k)"


section \<open>Stage 03 of Arak29toConllu: exclamation marks\<close>

text \<open>The dataclass \<open>Token\<close>: the ten columns and the private span marker.\<close>

record Token =
  id' :: pystr
  form :: pystr
  lemma' :: pystr
  upos :: pystr
  xpos :: pystr
  feats :: pystr
  head :: pystr
  deprel :: pystr
  deps :: pystr
  misc :: pystr
  mwt_span :: "int option"

definition to_line :: "Token \<Rightarrow> pystr" where
  "to_line t = py_join [9]
     [id' t, form t, lemma' t, upos t, xpos t, feats t, head t, deprel t, deps t, misc t]"

definition from_line :: "pystr \<Rightarrow> Token option" where
  "from_line line =
     (let cols = split_char 9 (rev (dropWhile (\<lambda>c. c = 10) (rev line)))
      in if length cols < 10 then None
         else Some \<lparr>id' = cols ! 0, form = cols ! 1, lemma' = cols ! 2, upos = cols ! 3,
                    xpos = cols ! 4, feats = cols ! 5, head = cols ! 6, deprel = cols ! 7,
                    deps = cols ! 8, misc = cols ! 9, mwt_span = None\<rparr>)"

record Sentence =
  meta :: "pystr list"
  tokens :: "Token list"

text \<open>The body of the loop of \<open>read_conllu\<close> over the token lines of a block.\<close>

definition parse_token_lines :: "pystr list \<Rightarrow> Token list" where
  "parse_token_lines toks = List.map_filter from_line toks"

text \<open>One block of \<open>read_conllu\<close>, from its lines (\<open>b.splitlines()\<close>).\<close>

definition read_lines :: "pystr list \<Rightarrow> Sentence" where
  "read_lines block_lines =
     (let lines = filter (\<lambda>ln. py_strip ln \<noteq> []) block_lines
      in \<lparr>meta = filter (\<lambda>ln. startswith ln (lit ''#'')) lines,
          tokens = parse_token_lines (filter (\<lambda>ln. \<not> startswith ln (lit ''#'')) lines)\<rparr>)"

definition read_conllu :: "pystr \<Rightarrow> Sentence list" where
  "read_conllu raw =
     map (\<lambda>b. read_lines (splitlines b)) (filter (\<lambda>b. py_strip b \<noteq> []) (split_blank raw))"

text \<open>What \<open>write_conllu\<close> writes for one sentence, and for the file.\<close>

definition write_sentence :: "Sentence \<Rightarrow> pystr" where
  "write_sentence s = concat (map (\<lambda>m. m @ [10]) (meta s)) @ concat (map (\<lambda>t. to_line t @ [10]) (tokens s))"

definition write_conllu :: "Sentence list \<Rightarrow> pystr" where
  "write_conllu sents = py_join [10] (map write_sentence sents)"

definition EXCL :: nat where
  "EXCL = 1372"

definition LEFT_GUIL :: nat where
  "LEFT_GUIL = 171"

definition make_mwt :: "pystr \<Rightarrow> int \<Rightarrow> Token" where
  "make_mwt frm span =
     \<lparr>id' = lit ''MWT'', form = frm, lemma' = lit ''_'', upos = lit ''_'', xpos = lit ''_'',
      feats = lit ''_'', head = lit ''_'', deprel = lit ''_'', deps = lit ''_'', misc = lit ''_'',
      mwt_span = Some span\<rparr>"

text \<open>The punctuation tokens the stage creates; their head is the placeholder \<open>BASE\<close>.\<close>

definition punct_token :: "pystr \<Rightarrow> nat \<Rightarrow> Token" where
  "punct_token placeholder mark =
     \<lparr>id' = placeholder, form = [mark], lemma' = [mark], upos = lit ''PUNCT'', xpos = lit ''_'',
      feats = lit ''_'', head = lit ''BASE'', deprel = lit ''punct'', deps = lit ''_'',
      misc = lit ''_'', mwt_span = None\<rparr>"

text \<open>\<open>fix_exclamations\<close>: the loop over the index \<open>i\<close> as recursion over the tokens from
  \<open>i\<close> on. The result is the new token list and the \<open>changed\<close> flag.\<close>

definition split_exclamation :: "Token \<Rightarrow> Token list" where
  "split_exclamation cur =
     (let frm = form cur;
          has_left_guil = (startswith frm [LEFT_GUIL] \<and> length frm > 1);
          span = (if has_left_guil then 3 else 2);
          base_form = filter (\<lambda>c. c \<noteq> EXCL) (if has_left_guil then tl frm else frm);
          base = cur\<lparr>id' := lit ''BASE'', form := base_form\<rparr>
      in [make_mwt frm span, base]
         @ (if has_left_guil then [punct_token (lit ''Q'') LEFT_GUIL] else [])
         @ [punct_token (lit ''EXCL'') EXCL])"

definition merge_exclamation :: "Token \<Rightarrow> Token \<Rightarrow> Token list" where
  "merge_exclamation cur nxt =
     [make_mwt (form cur @ form nxt) 2, cur\<lparr>id' := lit ''BASE''\<rparr>,
      punct_token (lit ''EXCL'') EXCL]"

fun fix_exclamations :: "Token list \<Rightarrow> Token list \<times> bool" where
  "fix_exclamations [] = ([], False)"
| "fix_exclamations [cur] =
     (if EXCL \<in> set (form cur) then (split_exclamation cur, True) else ([cur], False))"
| "fix_exclamations (cur # nxt # rest) =
     (if EXCL \<in> set (form cur)
      then (case fix_exclamations (nxt # rest) of (out, changed) \<Rightarrow>
              (split_exclamation cur @ out, True))
      else if startswith (form nxt) [EXCL]
      then (case fix_exclamations rest of (out, changed) \<Rightarrow>
              (merge_exclamation cur nxt @ out, True))
      else (case fix_exclamations (nxt # rest) of (out, changed) \<Rightarrow> (cur # out, changed)))"

text \<open>\<open>renumber_preserving_mwts\<close>, first loop. The inner loop renumbers the tokens that
  follow a span line; it stops early at the end of the list.\<close>

definition has_hyphen :: "pystr \<Rightarrow> bool" where
  "has_hyphen s \<longleftrightarrow> 45 \<in> set s"

fun renumber_subs :: "Token list \<Rightarrow> int \<Rightarrow> (int \<rightharpoonup> int) \<Rightarrow> Token list \<times> (int \<rightharpoonup> int)" where
  "renumber_subs [] new_id id_map = ([], id_map)"
| "renumber_subs (sub # subs) new_id id_map =
     (let id_map' = (if py_isdigit (id' sub) then id_map(int (py_int (id' sub)) \<mapsto> new_id)
                     else id_map)
      in (case renumber_subs subs (new_id + 1) id_map' of (out, m) \<Rightarrow>
            (sub\<lparr>id' := str_int new_id\<rparr> # out, m)))"

text \<open>\<open>a, b = map(int, tk.id.split("-"))\<close> on an id whose characters other than the
  hyphen are digits: exactly two non-empty parts, or a \<open>ValueError\<close>.\<close>

definition span_bounds :: "pystr \<Rightarrow> py_error + (int \<times> int)" where
  "span_bounds tid =
     (case split_char 45 tid of
        [a, b] \<Rightarrow> if a = [] \<or> b = [] then Inl ValueError
                   else Inr (int (py_int a), int (py_int b))
      | _ \<Rightarrow> Inl ValueError)"

function renumber_ids :: "Token list \<Rightarrow> int \<Rightarrow> (int \<rightharpoonup> int)
    \<Rightarrow> py_error + (Token list \<times> (int \<rightharpoonup> int))" where
  "renumber_ids [] next_id id_map = Inr ([], id_map)"
| "renumber_ids (tk # rest) next_id id_map =
     (case mwt_span tk of
        Some span \<Rightarrow>
          (case renumber_subs (take (nat span) rest) next_id id_map of (subs, id_map') \<Rightarrow>
             (case renumber_ids (drop (nat span) rest) (next_id + span) id_map' of
                Inl e \<Rightarrow> Inl e
              | Inr (out, m) \<Rightarrow>
                  Inr (tk\<lparr>id' := str_int next_id @ lit ''-'' @ str_int (next_id + span - 1)\<rparr>
                         # subs @ out, m)))
      | None \<Rightarrow>
          if has_hyphen (id' tk) \<and> py_isdigit (filter (\<lambda>c. c \<noteq> 45) (id' tk))
          then (case span_bounds (id' tk) of
                  Inl e \<Rightarrow> Inl e
                | Inr (a, b) \<Rightarrow>
                    (let span = b - a + 1 in
                     (case renumber_subs (take (nat span) rest) next_id id_map of
                        (subs, id_map') \<Rightarrow>
                          (case renumber_ids (drop (nat span) rest) (next_id + span) id_map' of
                             Inl e \<Rightarrow> Inl e
                           | Inr (out, m) \<Rightarrow>
                               Inr (tk\<lparr>id' := str_int next_id @ lit ''-''
                                           @ str_int (next_id + span - 1)\<rparr> # subs @ out, m)))))
          else (let id_map' = (if py_isdigit (id' tk)
                               then id_map(int (py_int (id' tk)) \<mapsto> next_id) else id_map)
                in (case renumber_ids rest (next_id + 1) id_map' of
                      Inl e \<Rightarrow> Inl e
                    | Inr (out, m) \<Rightarrow> Inr (tk\<lparr>id' := str_int next_id\<rparr> # out, m))))"
  by pat_completeness auto
termination
  by (relation "measure (\<lambda>(ts, n, m). length ts)") auto

text \<open>Second loop: the heads. \<open>result.index(tk)\<close> is the first position that holds a token
  equal to \<open>tk\<close>; the scan goes back from there to the nearest token that is not a span
  line. The assignment is to \<open>tk\<close> itself, the token at position \<open>k\<close>.\<close>

fun index_of :: "'a list \<Rightarrow> 'a \<Rightarrow> nat" where
  "index_of [] x = 0"
| "index_of (y # ys) x = (if y = x then 0 else Suc (index_of ys x))"

fun prev_atomic :: "Token list \<Rightarrow> nat \<Rightarrow> nat option" where
  "prev_atomic result 0 = None"
| "prev_atomic result (Suc q) =
     (if has_hyphen (id' (result ! q)) then prev_atomic result q else Some q)"

definition fix_head_at :: "(int \<rightharpoonup> int) \<Rightarrow> Token list \<Rightarrow> nat \<Rightarrow> Token list" where
  "fix_head_at id_map result k =
     (let tk = result ! k; h = head tk in
      if has_hyphen (id' tk) then result
      else if py_isdigit h then
        (case id_map (int (py_int h)) of
           Some n \<Rightarrow> result[k := tk\<lparr>head := str_int n\<rparr>]
         | None \<Rightarrow> result)
      else if h \<in> {lit ''BASE'', lit ''EXCL'', lit ''Q''} then
        (case prev_atomic result (index_of result tk) of
           Some q \<Rightarrow> result[k := tk\<lparr>head := id' (result ! q)\<rparr>]
         | None \<Rightarrow> result)
      else result)"

definition fix_heads :: "(int \<rightharpoonup> int) \<Rightarrow> Token list \<Rightarrow> Token list" where
  "fix_heads id_map result = foldl (fix_head_at id_map) result [0..<length result]"

definition renumber_preserving_mwts :: "Token list \<Rightarrow> py_error + Token list" where
  "renumber_preserving_mwts toks =
     (case renumber_ids toks 1 Map.empty of
        Inl e \<Rightarrow> Inl e
      | Inr (result, id_map) \<Rightarrow> Inr (fix_heads id_map result))"

text \<open>\<open>process_sentence\<close> of stage 03: split, then renumber.\<close>

definition process_sentence03 :: "Token list \<Rightarrow> py_error + Token list" where
  "process_sentence03 toks = renumber_preserving_mwts (fst (fix_exclamations toks))"


section \<open>Stage 07 of Arak29toConllu: punctuation attached to words\<close>


definition parse_token_line07 :: "pystr \<Rightarrow> Token option" where
  "parse_token_line07 line =
     (let cols = split_char 9 line
      in if length cols < 10 then None
         else Some \<lparr>id' = cols ! 0, form = cols ! 1, lemma' = cols ! 2, upos = cols ! 3,
                    xpos = cols ! 4, feats = cols ! 5, head = cols ! 6, deprel = cols ! 7,
                    deps = cols ! 8, misc = cols ! 9, mwt_span = None\<rparr>)"



text \<open>\<open>old_start, old_end = map(int, tid.split("-"))\<close>.\<close>

definition range_bounds :: "pystr \<Rightarrow> py_error + (int \<times> int)" where
  "range_bounds tid =
     (case split_char 45 tid of
        [a, b] \<Rightarrow>
          (case int_of_str a of
             Inl e \<Rightarrow> Inl e
           | Inr x \<Rightarrow> (case int_of_str b of Inl e \<Rightarrow> Inl e | Inr y \<Rightarrow> Inr (x, y)))
      | _ \<Rightarrow> Inl ValueError)"

text \<open>The inner loop of \<open>renumber_tokens\<close>: it takes the following tokens while their
  ids continue the old range. The result is the renumbered sub-tokens and the map.\<close>

fun consume_subs :: "Token list \<Rightarrow> int \<Rightarrow> int \<Rightarrow> nat \<Rightarrow> (int \<rightharpoonup> pystr)
    \<Rightarrow> Token list \<times> (int \<rightharpoonup> pystr)" where
  "consume_subs [] old_id new_id count old_id_map = ([], old_id_map)"
| "consume_subs (sub # rest) old_id new_id 0 old_id_map = ([], old_id_map)"
| "consume_subs (sub # rest) old_id new_id (Suc count) old_id_map =
     (if py_isdigit (id' sub) \<and> int (py_int (id' sub)) = old_id
      then (case consume_subs rest (old_id + 1) (new_id + 1) count
                   (old_id_map(old_id \<mapsto> str_int new_id)) of
              (out, m) \<Rightarrow> (sub\<lparr>id' := str_int new_id\<rparr> # out, m))
      else ([], old_id_map))"

function renumber_ids07 :: "Token list \<Rightarrow> int \<Rightarrow> (int \<rightharpoonup> pystr)
    \<Rightarrow> py_error + (Token list \<times> (int \<rightharpoonup> pystr))" where
  "renumber_ids07 [] next_id old_id_map = Inr ([], old_id_map)"
| "renumber_ids07 (tk # rest) next_id old_id_map =
     (if has_hyphen (id' tk)
      then (case range_bounds (id' tk) of
              Inl e \<Rightarrow> Inl e
            | Inr (old_start, old_end) \<Rightarrow>
                (let count = old_end - old_start + 1;
                     new_end = next_id + count - 1
                 in (case consume_subs rest old_start next_id (nat count) old_id_map of
                       (subs, m) \<Rightarrow>
                         (case renumber_ids07 (drop (length subs) rest) (new_end + 1) m of
                            Inl e \<Rightarrow> Inl e
                          | Inr (out, m') \<Rightarrow>
                              Inr (tk\<lparr>id' := str_int next_id @ lit ''-'' @ str_int new_end\<rparr>
                                     # subs @ out, m')))))
      else if py_isdigit (id' tk)
      then (case renumber_ids07 rest (next_id + 1)
                   (old_id_map(int (py_int (id' tk)) \<mapsto> str_int next_id)) of
              Inl e \<Rightarrow> Inl e
            | Inr (out, m') \<Rightarrow> Inr (tk\<lparr>id' := str_int next_id\<rparr> # out, m'))
      else renumber_ids07 rest next_id old_id_map)"
  by pat_completeness auto
termination
  by (relation "measure (\<lambda>(ts, n, m). length ts)") auto

text \<open>The head loop: a numeric head that the map knows is replaced, any other head
  stays.\<close>

definition remap_head07 :: "(int \<rightharpoonup> pystr) \<Rightarrow> Token \<Rightarrow> Token" where
  "remap_head07 old_id_map tk =
     (if has_hyphen (id' tk) then tk
      else if py_isdigit (head tk)
      then (case old_id_map (int (py_int (head tk))) of
              Some mapped \<Rightarrow> if mapped \<noteq> [] then tk\<lparr>head := mapped\<rparr> else tk
            | None \<Rightarrow> tk)
      else tk)"

definition renumber_tokens :: "Token list \<Rightarrow> py_error + Token list" where
  "renumber_tokens token_dicts =
     (case renumber_ids07 token_dicts 1 Map.empty of
        Inl e \<Rightarrow> Inl e
      | Inr (new_list, old_id_map) \<Rightarrow> Inr (map (remap_head07 old_id_map) new_list))"

section \<open>Stage 18 of Arak29toConllu: the sentence parser\<close>

text \<open>The loop of \<open>parse_conllu_sentence\<close> over the lines of a block: empty lines,
  comments and lines with fewer than ten columns are skipped.\<close>

definition parse_line18 :: "pystr \<Rightarrow> Token option" where
  "parse_line18 line =
     (if line = [] \<or> startswith line (lit ''#'') then None
      else (let cols = split_char 9 line
            in if length cols < 10 then None
               else Some \<lparr>id' = cols ! 0, form = cols ! 1, lemma' = cols ! 2, upos = cols ! 3,
                          xpos = cols ! 4, feats = cols ! 5, head = cols ! 6, deprel = cols ! 7,
                          deps = cols ! 8, misc = cols ! 9, mwt_span = None\<rparr>))"

definition parse_conllu_sentence :: "pystr \<Rightarrow> Token list" where
  "parse_conllu_sentence block = List.map_filter parse_line18 (split_char 10 (py_strip block))"


section \<open>Attribute lines of the prioel2conllu stages\<close>

text \<open>
  Stages 00 and 40 work on the text of a token line with regular expressions. The
  functions below are those searches and substitutions, for attribute names made of
  letters, digits, underscores and hyphens and for values without a backslash (a name
  is pasted into the pattern and a value into the replacement template as they are).
\<close>

definition is_word :: "nat \<Rightarrow> bool" where
  "is_word c \<longleftrightarrow> is_digit c \<or> (65 \<le> c \<and> c \<le> 90) \<or> c = 95 \<or> (97 \<le> c \<and> c \<le> 122)"

text \<open>\<open>p in s\<close> for strings.\<close>

fun contains :: "pystr \<Rightarrow> pystr \<Rightarrow> bool" where
  "contains [] p = (p = [])"
| "contains (c # cs) p = (startswith (c # cs) p \<or> contains cs p)"

text \<open>The first index whose element satisfies \<open>P\<close>: a \<open>for\<close> loop left by \<open>break\<close>.\<close>

fun find_first :: "('a \<Rightarrow> bool) \<Rightarrow> 'a list \<Rightarrow> nat option" where
  "find_first P [] = None"
| "find_first P (x # xs) =
     (if P x then Some 0 else (case find_first P xs of Some i \<Rightarrow> Some (Suc i) | None \<Rightarrow> None))"

text \<open>\<open>re.search(r'\bNAME="([^"]*)"', line)\<close>: the leftmost place where the name starts
  at a word boundary, is followed by \<open>="\<close>, and a closing quote comes later; the value
  runs up to that quote. \<open>prev_word\<close> tells whether the character before is a word
  character.\<close>

fun search_attr :: "bool \<Rightarrow> pystr \<Rightarrow> pystr \<Rightarrow> pystr option" where
  "search_attr prev_word name [] = None"
| "search_attr prev_word name (c # cs) =
     (let rest = drop (length name + 2) (c # cs)
      in if prev_word \<noteq> is_word c \<and> startswith (c # cs) (name @ lit ''='' @ [34])
            \<and> 34 \<in> set rest
         then Some (takeWhile (\<lambda>x. x \<noteq> 34) rest)
         else search_attr (is_word c) name cs)"

definition get_attr :: "pystr \<Rightarrow> pystr \<Rightarrow> pystr option" where
  "get_attr line name = search_attr False name line"

text \<open>\<open>re.search(r'\bNAME="', line)\<close>.\<close>

fun search_name :: "bool \<Rightarrow> pystr \<Rightarrow> pystr \<Rightarrow> bool" where
  "search_name prev_word name [] = False"
| "search_name prev_word name (c # cs) =
     ((prev_word \<noteq> is_word c \<and> startswith (c # cs) (name @ lit ''='' @ [34]))
      \<or> search_name (is_word c) name cs)"

definition has_attr :: "pystr \<Rightarrow> pystr \<Rightarrow> bool" where
  "has_attr line name = search_name False name line"

text \<open>\<open>re.sub(r'(NAME=")[^"]*(")', r'\1VALUE\2', line, count=1)\<close>: no word boundary
  here; the first \<open>NAME="\<close> that has a closing quote gets the new value.\<close>

fun sub_value :: "pystr \<Rightarrow> pystr \<Rightarrow> pystr \<Rightarrow> pystr" where
  "sub_value name v [] = []"
| "sub_value name v (c # cs) =
     (let rest = drop (length name + 2) (c # cs)
      in if startswith (c # cs) (name @ lit ''='' @ [34]) \<and> 34 \<in> set rest
         then name @ lit ''='' @ [34] @ v @ dropWhile (\<lambda>x. x \<noteq> 34) rest
         else c # sub_value name v cs)"

text \<open>\<open>re.sub(r'\s*/>', ' NAME="VALUE" />', line, count=1)\<close>: the leftmost match starts
  at the beginning of the whitespace that leads to the first \<open>/>\<close>.\<close>

fun sub_close :: "pystr \<Rightarrow> pystr \<Rightarrow> pystr" where
  "sub_close ins [] = []"
| "sub_close ins (c # cs) =
     (let after_ws = dropWhile is_space (c # cs)
      in if startswith after_ws (lit ''/>'') then ins @ lit '' />'' @ drop 2 after_ws
         else c # sub_close ins cs)"

text \<open>\<open>re.sub(r'>', ' NAME="VALUE">', line, count=1)\<close>.\<close>

fun sub_gt :: "pystr \<Rightarrow> pystr \<Rightarrow> pystr" where
  "sub_gt ins [] = []"
| "sub_gt ins (c # cs) = (if c = 62 then ins @ [62] @ cs else c # sub_gt ins cs)"

text \<open>\<open>set_attr\<close> of stage 40.\<close>

definition set_attr :: "pystr \<Rightarrow> pystr \<Rightarrow> pystr \<Rightarrow> pystr" where
  "set_attr line name v =
     (if has_attr line name then sub_value name v line
      else if contains line (lit ''/>'') then sub_close (lit '' '' @ name @ lit ''='' @ quoted v) line
      else if 62 \<in> set line then sub_gt (lit '' '' @ name @ lit ''='' @ quoted v) line
      else line @ lit '' '' @ name @ lit ''='' @ quoted v)"

text \<open>\<open>set_attr\<close> of stage 00, which has no case for \<open>/>\<close>.\<close>

definition set_attr00 :: "pystr \<Rightarrow> pystr \<Rightarrow> pystr \<Rightarrow> pystr" where
  "set_attr00 line name v =
     (if has_attr line name then sub_value name v line
      else if 62 \<in> set line then sub_gt (lit '' '' @ name @ lit ''='' @ quoted v) line
      else line @ lit '' '' @ name @ lit ''='' @ quoted v)"

section \<open>Stage 40 of prioel2conllu: several roots\<close>

text \<open>\<open>root_info\<close>: index and id of every line whose relation is \<open>root\<close> and whose id is
  present and not empty.\<close>

definition is_root :: "pystr \<Rightarrow> bool" where
  "is_root tok \<longleftrightarrow> get_attr tok (lit ''relation'') = Some (lit ''root'')"

definition root_entry :: "nat \<times> pystr \<Rightarrow> (nat \<times> pystr) option" where
  "root_entry e = (case e of (idx, tok) \<Rightarrow>
     if is_root tok
     then (case get_attr tok (lit ''id'') of
             Some tid \<Rightarrow> if tid \<noteq> [] then Some (idx, tid) else None
           | None \<Rightarrow> None)
     else None)"

definition root_info :: "pystr list \<Rightarrow> (nat \<times> pystr) list" where
  "root_info toks = List.map_filter root_entry (zip [0..<length toks] toks)"

text \<open>The loop \<open>for i in range(1, len(root_info))\<close>: each root after the first is hung
  under the root before it.\<close>

fun demote_roots :: "(nat \<times> pystr) list \<Rightarrow> pystr list \<Rightarrow> pystr list" where
  "demote_roots (prev # cur # rest) toks =
     demote_roots (cur # rest)
       (if snd prev = [] then toks
        else toks[fst cur :=
               set_attr (set_attr (toks ! fst cur) (lit ''head-id'') (snd prev))
                 (lit ''relation'') (lit ''ccomp'')])"
| "demote_roots info toks = toks"

definition collapse_roots :: "pystr list \<Rightarrow> pystr list" where
  "collapse_roots toks =
     (let info = root_info toks
      in if length info \<le> 1 then toks else demote_roots info toks)"




definition process_sentence40 :: "pystr \<Rightarrow> pystr" where
  "process_sentence40 block = py_join [10] (collapse_roots (splitlines block))"

section \<open>Stage 00 of prioel2conllu: the token \<open>ibrew z\<close>\<close>

text \<open>\<open>re.sub(r'\bid="OLD"\b', 'id="OLD0"', line, count=1)\<close>: the closing quote must
  itself be followed by a word character for the pattern to match.\<close>

fun sub_id_suffix :: "bool \<Rightarrow> pystr \<Rightarrow> pystr \<Rightarrow> pystr \<Rightarrow> pystr" where
  "sub_id_suffix prev_word old_id new_suffix [] = []"
| "sub_id_suffix prev_word old_id new_suffix (c # cs) =
     (let pat = lit ''id='' @ quoted old_id;
          rest = drop (length pat) (c # cs)
      in if prev_word \<noteq> is_word c \<and> startswith (c # cs) pat \<and> rest \<noteq> [] \<and> is_word (hd rest)
         then lit ''id='' @ quoted (old_id @ new_suffix) @ rest
         else c # sub_id_suffix (is_word c) old_id new_suffix cs)"

definition replace_id_suffix :: "pystr \<Rightarrow> pystr \<Rightarrow> pystr \<Rightarrow> pystr" where
  "replace_id_suffix line old_id new_suffix = sub_id_suffix False old_id new_suffix line"

definition is_ibrew_z :: "pystr \<Rightarrow> bool" where
  "is_ibrew_z tok \<longleftrightarrow> contains tok (lit ''lemma='' @ quoted (lit ''ibrew z''))"

definition points_to :: "pystr \<Rightarrow> pystr \<Rightarrow> bool" where
  "points_to ibrew_z_id tok \<longleftrightarrow> contains tok (lit ''head-id='' @ quoted ibrew_z_id)"

text \<open>\<open>tokens.insert(i, x)\<close> for an index inside the list.\<close>

definition list_insert :: "'a list \<Rightarrow> nat \<Rightarrow> 'a \<Rightarrow> 'a list" where
  "list_insert xs i x = take i xs @ [x] @ drop i xs"

definition retarget :: "pystr \<Rightarrow> pystr \<Rightarrow> pystr \<Rightarrow> pystr \<Rightarrow> pystr" where
  "retarget tok frm pos rel =
     set_attr00 (set_attr00 (set_attr00 (set_attr00 tok (lit ''form'') frm) (lit ''lemma'') frm)
       (lit ''part-of-speech'') pos) (lit ''relation'') rel"

text \<open>\<open>transform_sentence\<close> on the lines of the block. Steps 2 to 5 run only when the
  first \<open>ibrew z\<close> line has a non-empty id and a relation.\<close>

definition transform_lines :: "pystr list \<Rightarrow> pystr list" where
  "transform_lines toks =
     (case find_first is_ibrew_z toks of
        None \<Rightarrow> toks
      | Some ibrew_z_idx \<Rightarrow>
          (case (get_attr (toks ! ibrew_z_idx) (lit ''id''),
                 get_attr (toks ! ibrew_z_idx) (lit ''relation'')) of
             (Some ibrew_z_id, Some ibrew_z_relation) \<Rightarrow>
               if ibrew_z_id = [] then toks
               else
                 (let (toks2, dependent_id) =
                        (case find_first (points_to ibrew_z_id) toks of
                           None \<Rightarrow> (toks, None)
                         | Some idx \<Rightarrow>
                             (let tok' = set_attr00 (toks ! idx) (lit ''relation'') ibrew_z_relation
                              in (toks[idx := tok'], get_attr tok' (lit ''id''))));
                      toks3 =
                        (case dependent_id of
                           Some d \<Rightarrow> toks2[ibrew_z_idx :=
                                        set_attr00 (toks2 ! ibrew_z_idx) (lit ''head-id'') d]
                         | None \<Rightarrow> toks2);
                      duplicated = replace_id_suffix (toks3 ! ibrew_z_idx) ibrew_z_id (lit ''0'');
                      toks4 = list_insert toks3 (ibrew_z_idx + 1) duplicated;
                      toks5 = toks4[ibrew_z_idx :=
                                  retarget (toks4 ! ibrew_z_idx) (lit ''ibrew'') (lit ''G-'') (lit ''case'')]
                  in toks5[ibrew_z_idx + 1 :=
                       retarget (toks5 ! (ibrew_z_idx + 1)) (lit ''z'') (lit ''R-'') (lit ''aux'')])
           | _ \<Rightarrow> toks))"



definition transform_sentence :: "pystr \<Rightarrow> pystr" where
  "transform_sentence sentence_block = py_join [10] (transform_lines (splitlines sentence_block))"


section \<open>Files that stage 03 reads back as written\<close>

text \<open>The text of a file given by the lines of its blocks: every line ends in a newline
  and an empty line stands between two blocks. This is the layout \<open>write_conllu\<close>
  writes.\<close>

definition block_text :: "pystr list \<Rightarrow> pystr" where
  "block_text b = concat (map (\<lambda>l. l @ [10]) b)"

definition file_text :: "pystr list list \<Rightarrow> pystr" where
  "file_text blocks = py_join [10] (map block_text blocks)"

text \<open>A comment line; a line without a line boundary inside that is a comment or a
  token line of exactly ten columns with a character that is not whitespace; a block of
  such lines, not empty, its comments before its token lines.\<close>

definition is_comment :: "pystr \<Rightarrow> bool" where
  "is_comment l \<longleftrightarrow> startswith l (lit ''#'')"

definition plain_line :: "pystr \<Rightarrow> bool" where
  "plain_line l \<longleftrightarrow> list_all (\<lambda>c. \<not> is_linebreak c) l
     \<and> (is_comment l \<or> (py_strip l \<noteq> [] \<and> length (split_char 9 l) = 10))"

definition plain_block :: "pystr list \<Rightarrow> bool" where
  "plain_block b \<longleftrightarrow> b \<noteq> [] \<and> list_all plain_line b
     \<and> b = filter is_comment b @ filter (\<lambda>l. \<not> is_comment l) b"

text \<open>No empty line inside a text: no two newlines in a row.\<close>

fun no_blank :: "pystr \<Rightarrow> bool" where
  "no_blank (c # d # cs) = (\<not> (c = 10 \<and> d = 10) \<and> no_blank (d # cs))"
| "no_blank cs = True"

text \<open>A line that is not empty and has no line boundary inside.\<close>

definition tidy :: "pystr \<Rightarrow> bool" where
  "tidy l \<longleftrightarrow> l \<noteq> [] \<and> list_all (\<lambda>c. \<not> is_linebreak c) l"

section \<open>Properties of the stage-42 renumbering\<close>

lemma py_int_snoc: "py_int (s @ [c]) = 10 * py_int s + (c - 48)"
  by (simp add: py_int_def)

lemma str_nat_small: "n < 10 \<Longrightarrow> str_nat n = [48 + n]"
  by (subst str_nat.simps) simp

lemma str_nat_large: "\<not> n < 10 \<Longrightarrow> str_nat n = str_nat (n div 10) @ [48 + n mod 10]"
  by (subst str_nat.simps) simp

lemma py_int_str_nat: "py_int (str_nat n) = n"
proof (induction n rule: str_nat.induct)
  case (1 n)
  show ?case
  proof (cases "n < 10")
    case True
    then show ?thesis by (simp add: str_nat_small py_int_def)
  next
    case False
    with 1 show ?thesis by (simp add: str_nat_large py_int_snoc)
  qed
qed

lemma str_nat_inj: "str_nat a = str_nat b \<Longrightarrow> a = b"
  by (metis py_int_str_nat)

lemma str_nat_digits: "list_all is_digit (str_nat n)"
proof (induction n rule: str_nat.induct)
  case (1 n)
  show ?case
  proof (cases "n < 10")
    case True
    then show ?thesis by (simp add: str_nat_small is_digit_def)
  next
    case False
    moreover have "n mod 10 < 10" by simp
    ultimately show ?thesis using 1 by (simp add: str_nat_large is_digit_def)
  qed
qed

lemma str_nat_nonempty: "str_nat n \<noteq> []"
  by (subst str_nat.simps) simp

lemma str_nat_isdigit: "py_isdigit (str_nat n)"
  by (simp add: py_isdigit_def str_nat_digits str_nat_nonempty)

lemma digits_no_hyphen: "list_all is_digit s \<Longrightarrow> \<not> is_hyphen_id s"
  by (auto simp: is_hyphen_id_def list_all_iff is_digit_def)

lemma str_nat_no_hyphen: "\<not> is_hyphen_id (str_nat n)"
  by (simp add: digits_no_hyphen str_nat_digits)

lemma dict_get_set: "dict_get (dict_set d k v) k' = (if k' = k then Some v else dict_get d k')"
  by (induction d) (auto simp: dict_get_def)

lemma hyphen_nonempty: "is_hyphen_id s \<Longrightarrow> s \<noteq> []"
  by (auto simp: is_hyphen_id_def)

lemma assign_ids_step:
  "assign_ids (t # ts) m c =
     (if tok_id t \<noteq> [] \<and> \<not> is_hyphen_id (tok_id t) \<and> m (tok_id t) = None
      then assign_ids ts (m(tok_id t \<mapsto> str_nat c)) (Suc c) else assign_ids ts m c)"
  by (cases t) (auto simp: tok_id_def split: option.splits)

lemma map_hyphen_ids_step:
  "map_hyphen_ids (t # ts) m =
     (if is_hyphen_id (tok_id t)
      then (case (m (fst (split_once 45 (tok_id t))), m (snd (split_once 45 (tok_id t)))) of
              (Some na, Some nb) \<Rightarrow> map_hyphen_ids ts (m(tok_id t \<mapsto> na @ [45] @ nb))
            | _ \<Rightarrow> map_hyphen_ids ts m)
      else map_hyphen_ids ts m)"
  by (cases t) (auto simp: tok_id_def is_hyphen_id_def split: option.splits prod.splits)

lemma assign_ids_keeps: "m k = Some v \<Longrightarrow> assign_ids ts m c k = Some v"
proof (induction ts arbitrary: m c)
  case Nil
  then show ?case by simp
next
  case (Cons t ts)
  show ?case
  proof (cases "tok_id t \<noteq> [] \<and> \<not> is_hyphen_id (tok_id t) \<and> m (tok_id t) = None")
    case True
    with Cons.prems have "(m(tok_id t \<mapsto> str_nat c)) k = Some v" by auto
    then have "assign_ids ts (m(tok_id t \<mapsto> str_nat c)) (Suc c) k = Some v" by (rule Cons.IH)
    with True show ?thesis by (simp add: assign_ids_step del: assign_ids.simps fun_upd_apply)
  next
    case False
    then have "assign_ids (t # ts) m c = assign_ids ts m c"
      by (auto simp: assign_ids_step simp del: assign_ids.simps)
    with Cons show ?thesis by simp
  qed
qed

lemma assign_ids_range:
  "assign_ids ts m c k = Some n \<Longrightarrow> m k = Some n \<or> (\<not> is_hyphen_id k \<and> (\<exists>i. n = str_nat i))"
proof (induction ts arbitrary: m c)
  case Nil
  then show ?case by simp
next
  case (Cons t ts)
  show ?case
  proof (cases "tok_id t \<noteq> [] \<and> \<not> is_hyphen_id (tok_id t) \<and> m (tok_id t) = None")
    case True
    with Cons.prems have "assign_ids ts (m(tok_id t \<mapsto> str_nat c)) (Suc c) k = Some n"
      by (simp add: assign_ids_step del: assign_ids.simps fun_upd_apply)
    then have "(m(tok_id t \<mapsto> str_nat c)) k = Some n \<or> (\<not> is_hyphen_id k \<and> (\<exists>i. n = str_nat i))"
      by (rule Cons.IH)
    then show ?thesis using True by (auto split: if_splits)
  next
    case False
    with Cons.prems have "assign_ids ts m c k = Some n"
      by (simp add: assign_ids_step del: assign_ids.simps)
    then show ?thesis by (rule Cons.IH)
  qed
qed

lemma map_hyphen_ids_atomic: "\<not> is_hyphen_id k \<Longrightarrow> map_hyphen_ids ts m k = m k"
proof (induction ts arbitrary: m)
  case Nil
  then show ?case by simp
next
  case (Cons t ts)
  then show ?case
    by (auto simp: map_hyphen_ids_step simp del: map_hyphen_ids.simps split: option.splits)
qed

lemma map_hyphen_ids_range:
  "map_hyphen_ids ts m k = Some n \<Longrightarrow> m k = Some n \<or> is_hyphen_id n"
proof (induction ts arbitrary: m)
  case Nil
  then show ?case by simp
next
  case (Cons t ts)
  let ?a = "fst (split_once 45 (tok_id t))" and ?b = "snd (split_once 45 (tok_id t))"
  show ?case
  proof (cases "is_hyphen_id (tok_id t) \<and> m ?a \<noteq> None \<and> m ?b \<noteq> None")
    case True
    then obtain na nb where nab: "m ?a = Some na" "m ?b = Some nb" by auto
    let ?m = "m(tok_id t \<mapsto> na @ [45] @ nb)"
    have "map_hyphen_ids ts ?m k = Some n"
      using Cons.prems True nab by (simp add: map_hyphen_ids_step del: map_hyphen_ids.simps)
    then have "?m k = Some n \<or> is_hyphen_id n" by (rule Cons.IH)
    then show ?thesis by (auto simp: is_hyphen_id_def split: if_splits)
  next
    case False
    then have "map_hyphen_ids (t # ts) m = map_hyphen_ids ts m"
      by (auto simp: map_hyphen_ids_step simp del: map_hyphen_ids.simps split: option.splits)
    with Cons show ?thesis by simp
  qed
qed

lemma build_id_mapping_hyphen:
  assumes "is_hyphen_id k" and "build_id_mapping ts k = Some n"
  shows "is_hyphen_id n"
proof -
  from assms(2) have "assign_ids ts Map.empty 1 k = Some n \<or> is_hyphen_id n"
    unfolding build_id_mapping_def by (rule map_hyphen_ids_range)
  then show ?thesis using assign_ids_range[of ts Map.empty 1 k n] assms(1) by auto
qed

lemma tok_id_rewrite:
  "tok_id (rewrite_token m t) = (case m (tok_id t) of Some n \<Rightarrow> n | None \<Rightarrow> tok_id t)"
  by (cases t) (simp add: tok_id_def rewrite_token_def rewrite_attrs_def Let_def dict_get_set
      split: option.splits)

lemma assign_ids_fresh:
  assumes "distinct (map tok_id (filter atomic ts))"
    and "[] \<notin> set (map tok_id (filter atomic ts))"
    and "\<forall>t \<in> set (filter atomic ts). m (tok_id t) = None"
  shows "map (\<lambda>t. assign_ids ts m c (tok_id t)) (filter atomic ts)
         = map (\<lambda>i. Some (str_nat i)) [c..<c + length (filter atomic ts)]"
  using assms
proof (induction ts arbitrary: m c)
  case Nil
  then show ?case by simp
next
  case (Cons t ts)
  show ?case
  proof (cases "atomic t")
    case False
    then have "assign_ids (t # ts) m c = assign_ids ts m c"
      by (simp add: assign_ids_step atomic_def del: assign_ids.simps)
    with Cons False show ?thesis by simp
  next
    case True
    let ?tid = "tok_id t"
    let ?m = "m(?tid \<mapsto> str_nat c)"
    from True have nh: "\<not> is_hyphen_id ?tid" by (simp add: atomic_def)
    from Cons.prems(2) True have ne: "?tid \<noteq> []" by auto
    from Cons.prems(3) True have fresh: "m ?tid = None" by auto
    have d: "distinct (map tok_id (filter atomic ts))" using Cons.prems(1) True by simp
    have n: "[] \<notin> set (map tok_id (filter atomic ts))" using Cons.prems(2) by auto
    have notin: "?tid \<notin> set (map tok_id (filter atomic ts))" using Cons.prems(1) True by simp
    have f: "\<forall>t\<in>set (filter atomic ts). ?m (tok_id t) = None"
    proof
      fix u assume u: "u \<in> set (filter atomic ts)"
      then have "tok_id u \<noteq> ?tid" using notin by (metis imageI set_map)
      moreover have "m (tok_id u) = None" using Cons.prems(3) u by simp
      ultimately show "?m (tok_id u) = None" by simp
    qed
    have IH: "map (\<lambda>t. assign_ids ts ?m (Suc c) (tok_id t)) (filter atomic ts)
         = map (\<lambda>i. Some (str_nat i)) [Suc c..<Suc c + length (filter atomic ts)]"
      by (rule Cons.IH[OF d n f])
    have hd: "assign_ids ts ?m (Suc c) ?tid = Some (str_nat c)"
      by (rule assign_ids_keeps) simp
    have eq: "assign_ids (t # ts) m c = assign_ids ts ?m (Suc c)"
      using nh ne fresh by (simp add: assign_ids_step del: assign_ids.simps fun_upd_apply)
    have up: "[c..<c + length (filter atomic (t # ts))]
        = c # [Suc c..<Suc c + length (filter atomic ts)]"
      using True by (simp add: upt_rec)
    have "map (\<lambda>t. assign_ids ts ?m (Suc c) (tok_id t)) (filter atomic (t # ts))
        = map (\<lambda>i. Some (str_nat i)) (c # [Suc c..<Suc c + length (filter atomic ts)])"
      using True hd IH by (simp del: fun_upd_apply upt_Suc)
    then show ?thesis
      unfolding eq up .
  qed
qed


lemma assign_ids_cong:
  "map tok_id ts = map tok_id ts' \<Longrightarrow> assign_ids ts m c = assign_ids ts' m c"
proof (induction ts arbitrary: ts' m c)
  case Nil
  then show ?case by simp
next
  case (Cons t ts)
  then obtain t' us where ts': "ts' = t' # us" "tok_id t = tok_id t'" "map tok_id ts = map tok_id us"
    by (cases ts') auto
  then show ?case using Cons.IH[of us]
    by (simp add: assign_ids_step del: assign_ids.simps fun_upd_apply)
qed

lemma map_hyphen_ids_cong:
  "map tok_id ts = map tok_id ts' \<Longrightarrow> map_hyphen_ids ts m = map_hyphen_ids ts' m"
proof (induction ts arbitrary: ts' m)
  case Nil
  then show ?case by simp
next
  case (Cons t ts)
  then obtain t' us where ts': "ts' = t' # us" "tok_id t = tok_id t'" "map tok_id ts = map tok_id us"
    by (cases ts') auto
  then show ?case using Cons.IH[of us]
    by (simp add: map_hyphen_ids_step del: map_hyphen_ids.simps fun_upd_apply
        split: option.splits)
qed

lemma build_id_mapping_cong:
  "map tok_id ts = map tok_id ts' \<Longrightarrow> build_id_mapping ts = build_id_mapping ts'"
  unfolding build_id_mapping_def
  using assign_ids_cong[of ts ts'] map_hyphen_ids_cong[of ts ts'] by simp

lemma id_on_dom_upd: "id_on_dom m \<Longrightarrow> id_on_dom (m(k \<mapsto> k))"
  by (auto simp: id_on_dom_def)

lemma assign_ids_identity:
  assumes "map tok_id (filter atomic ts) = map str_nat [c..<c + length (filter atomic ts)]"
    and "id_on_dom m"
    and "\<forall>i\<ge>c. m (str_nat i) = None"
  shows "id_on_dom (assign_ids ts m c)"
  using assms
proof (induction ts arbitrary: m c)
  case Nil
  then show ?case by simp
next
  case (Cons t ts)
  show ?case
  proof (cases "atomic t")
    case False
    then have "assign_ids (t # ts) m c = assign_ids ts m c"
      by (simp add: assign_ids_step atomic_def del: assign_ids.simps)
    with Cons False show ?thesis by simp
  next
    case True
    have up: "[c..<c + length (filter atomic (t # ts))]
        = c # [Suc c..<Suc c + length (filter atomic ts)]"
      using True by (simp add: upt_rec)
    from Cons.prems(1) True have tid: "tok_id t = str_nat c"
      and rest: "map tok_id (filter atomic ts) = map str_nat [Suc c..<Suc c + length (filter atomic ts)]"
      unfolding up by simp_all
    let ?m = "m(str_nat c \<mapsto> str_nat c)"
    have eq: "assign_ids (t # ts) m c = assign_ids ts ?m (Suc c)"
      using tid Cons.prems(3)
      by (simp add: assign_ids_step str_nat_nonempty str_nat_no_hyphen del: assign_ids.simps fun_upd_apply)
    have "\<forall>i\<ge>Suc c. ?m (str_nat i) = None"
      using Cons.prems(3) by (auto dest: str_nat_inj)
    with rest id_on_dom_upd[OF Cons.prems(2)] have "id_on_dom (assign_ids ts ?m (Suc c))"
      by (rule Cons.IH)
    then show ?thesis unfolding eq .
  qed
qed

lemma split_once_rejoin:
  "sep \<in> set s \<Longrightarrow> fst (split_once sep s) @ [sep] @ snd (split_once sep s) = s"
proof -
  assume a: "sep \<in> set s"
  then have "dropWhile (\<lambda>c. c \<noteq> sep) s \<noteq> []" by (simp add: dropWhile_eq_Nil_conv)
  moreover have "hd (dropWhile (\<lambda>c. c \<noteq> sep) s) = sep"
    using a hd_dropWhile[of "\<lambda>c. c \<noteq> sep" s] calculation by auto
  ultimately have "[sep] @ tl (dropWhile (\<lambda>c. c \<noteq> sep) s) = dropWhile (\<lambda>c. c \<noteq> sep) s"
    by (cases "dropWhile (\<lambda>c. c \<noteq> sep) s") auto
  then show ?thesis
    by (simp add: split_once_def del: append.simps)
qed

lemma map_hyphen_ids_identity: "id_on_dom m \<Longrightarrow> id_on_dom (map_hyphen_ids ts m)"
proof (induction ts arbitrary: m)
  case Nil
  then show ?case by simp
next
  case (Cons t ts)
  let ?a = "fst (split_once 45 (tok_id t))" and ?b = "snd (split_once 45 (tok_id t))"
  show ?case
  proof (cases "is_hyphen_id (tok_id t) \<and> m ?a \<noteq> None \<and> m ?b \<noteq> None")
    case True
    then obtain na nb where nab: "m ?a = Some na" "m ?b = Some nb" by auto
    with Cons.prems have "na = ?a" "nb = ?b" by (auto simp: id_on_dom_def)
    then have "na @ [45] @ nb = tok_id t"
      using True split_once_rejoin[of 45 "tok_id t"] by (simp add: is_hyphen_id_def)
    then have "map_hyphen_ids (t # ts) m = map_hyphen_ids ts (m(tok_id t \<mapsto> tok_id t))"
      using True nab by (simp add: map_hyphen_ids_step del: map_hyphen_ids.simps fun_upd_apply)
    then show ?thesis using Cons.IH[OF id_on_dom_upd[OF Cons.prems, of "tok_id t"]]
      by (simp del: fun_upd_apply)
  next
    case False
    then have "map_hyphen_ids (t # ts) m = map_hyphen_ids ts m"
      by (auto simp: map_hyphen_ids_step simp del: map_hyphen_ids.simps split: option.splits)
    with Cons show ?thesis by simp
  qed
qed

lemma build_id_mapping_identity:
  assumes "ids_sequential ts"
  shows "id_on_dom (build_id_mapping ts)"
  unfolding build_id_mapping_def
proof (rule map_hyphen_ids_identity, rule assign_ids_identity)
  show "map tok_id (filter atomic ts) = map str_nat [1..<1 + length (filter atomic ts)]"
    using assms by (simp add: ids_sequential_def)
qed (simp_all add: id_on_dom_def)

lemma dict_set_same: "dict_get d k = Some v \<Longrightarrow> dict_set d k v = d"
  by (induction d) (auto simp: dict_get_def split: if_splits)

lemma map_rel_attr_identity: "id_on_dom m \<Longrightarrow> map_rel_attr r m = r"
  using split_once_rejoin[of 58 r]
  by (auto simp: map_rel_attr_def id_on_dom_def split: prod.splits option.splits)

lemma map_head_id_identity:
  "id_on_dom m \<Longrightarrow> map_head_id (Some (map_head_id h m hy)) m hy = map_head_id h m hy"
  by (auto simp: map_head_id_def id_on_dom_def split: option.splits)

lemma rewrite_attrs_idem:
  assumes "id_on_dom m"
  shows "rewrite_attrs m (rewrite_attrs m a) = rewrite_attrs m a"
proof -
  let ?tid = "case dict_get a (lit ''id'') of Some t \<Rightarrow> t | None \<Rightarrow> []"
  have nid: "(case m ?tid of Some n \<Rightarrow> n | None \<Rightarrow> ?tid) = ?tid"
    using assms by (auto simp: id_on_dom_def split: option.splits)
  let ?a1 = "dict_set a (lit ''id'') ?tid"
  let ?h = "map_head_id (dict_get ?a1 (lit ''head-id'')) m (is_hyphen_id ?tid)"
  let ?a2 = "dict_set ?a1 (lit ''head-id'') ?h"
  have rel: "(case dict_get ?a2 (lit ''rel'') of
            Some r \<Rightarrow> dict_set ?a2 (lit ''rel'') (map_rel_attr r m)
          | None \<Rightarrow> ?a2) = ?a2"
  proof (cases "dict_get ?a2 (lit ''rel'')")
    case None
    then show ?thesis by (simp only: option.case)
  next
    case (Some r)
    then show ?thesis
      by (simp only: option.case map_rel_attr_identity[OF assms] dict_set_same[OF Some])
  qed
  have r1: "rewrite_attrs m a = ?a2"
    unfolding rewrite_attrs_def Let_def nid by (rule rel)
  have g1: "dict_get ?a2 (lit ''id'') = Some ?tid" by (simp add: dict_get_set)
  have g2: "dict_get ?a2 (lit ''head-id'') = Some ?h" by (simp add: dict_get_set)
  have s1: "dict_set ?a2 (lit ''id'') ?tid = ?a2" using g1 by (rule dict_set_same)
  have hh: "map_head_id (Some ?h) m (is_hyphen_id ?tid) = ?h"
    by (rule map_head_id_identity[OF assms])
  have s2: "dict_set ?a2 (lit ''head-id'') ?h = ?a2" using g2 by (rule dict_set_same)
  have "rewrite_attrs m ?a2 = ?a2"
    unfolding rewrite_attrs_def Let_def g1 option.case nid s1 g2 hh s2 by (rule rel)
  then show ?thesis unfolding r1 .
qed

lemma tok_id_rewrite_identity: "id_on_dom m \<Longrightarrow> tok_id (rewrite_token m t) = tok_id t"
  by (auto simp: tok_id_rewrite id_on_dom_def split: option.splits)


subsection \<open>Sequential ids\<close>

text \<open>
  Claim C1, as the code has it. The id map of stage 42 is keyed by the old id, and an
  id that is already in the map is not numbered again. So when the atomic
  (non-hyphenated) tokens of a sentence carry pairwise distinct, non-empty ids, their new
  ids are exactly \<open>1..N\<close>, in token order, \<open>N\<close> being the number of atomic tokens.
\<close>

theorem renumber_ids_sequential:
  assumes "distinct (map tok_id (filter atomic ts))"
    and "[] \<notin> set (map tok_id (filter atomic ts))"
  shows "map tok_id (filter atomic (rewrite_tokens ts))
         = map str_nat [1..<Suc (length (filter atomic ts))]"
proof -
  let ?m = "build_id_mapping ts"
  have look: "map (\<lambda>t. ?m (tok_id t)) (filter atomic ts)
      = map (\<lambda>i. Some (str_nat i)) [1..<1 + length (filter atomic ts)]"
  proof -
    have "map (\<lambda>t. ?m (tok_id t)) (filter atomic ts)
        = map (\<lambda>t. assign_ids ts Map.empty 1 (tok_id t)) (filter atomic ts)"
      by (rule map_cong) (auto simp: build_id_mapping_def atomic_def map_hyphen_ids_atomic)
    also have "\<dots> = map (\<lambda>i. Some (str_nat i)) [1..<1 + length (filter atomic ts)]"
      by (rule assign_ids_fresh[OF assms]) simp
    finally show ?thesis .
  qed
  have some: "\<exists>i. ?m (tok_id t) = Some (str_nat i)" if "t \<in> set (filter atomic ts)" for t
  proof -
    from that have "?m (tok_id t) \<in> set (map (\<lambda>t. ?m (tok_id t)) (filter atomic ts))" by auto
    then show ?thesis unfolding look by auto
  qed
  have keep: "atomic (rewrite_token ?m t) = atomic t" if "t \<in> set ts" for t
  proof (cases "atomic t")
    case True
    with that some[of t] obtain i where "?m (tok_id t) = Some (str_nat i)" by auto
    then show ?thesis using True by (simp add: atomic_def tok_id_rewrite str_nat_no_hyphen)
  next
    case False
    then have h: "is_hyphen_id (tok_id t)" by (simp add: atomic_def)
    show ?thesis
    proof (cases "?m (tok_id t)")
      case None
      then show ?thesis by (simp add: atomic_def tok_id_rewrite)
    next
      case (Some n)
      with h have "is_hyphen_id n" by (rule build_id_mapping_hyphen)
      with h Some show ?thesis by (simp add: atomic_def tok_id_rewrite)
    qed
  qed
  have "filter atomic (rewrite_tokens ts) = map (rewrite_token ?m) (filter atomic ts)"
    unfolding rewrite_tokens_def filter_map
    by (rule arg_cong[where f = "map (rewrite_token ?m)"], rule filter_cong) (auto simp: keep)
  then have "map tok_id (filter atomic (rewrite_tokens ts))
      = map (\<lambda>t. case ?m (tok_id t) of Some n \<Rightarrow> n | None \<Rightarrow> tok_id t) (filter atomic ts)"
    by (simp add: tok_id_rewrite)
  also have "\<dots> = map (\<lambda>r. case r of Some n \<Rightarrow> n | None \<Rightarrow> [])
      (map (\<lambda>t. ?m (tok_id t)) (filter atomic ts))"
    unfolding map_map comp_def by (rule map_cong[OF refl]) (use some in force)
  also have "\<dots> = map str_nat [1..<Suc (length (filter atomic ts))]"
    unfolding look by simp
  finally show ?thesis .
qed

text \<open>The spec's own example: ids 5, 3 in this order become 1, 2.\<close>

theorem renumber_ids_sequential_witness:
  "map tok_id (filter atomic (rewrite_tokens
     [([], [(lit ''id'', lit ''5''), (lit ''head-id'', lit ''3'')], [lit ''id'', lit ''head-id'']),
      ([], [(lit ''id'', lit ''3''), (lit ''head-id'', lit ''0'')], [lit ''id'', lit ''head-id''])]))
   = [lit ''1'', lit ''2'']"
  using renumber_ids_sequential[of
     "[([], [(lit ''id'', lit ''5''), (lit ''head-id'', lit ''3'')], [lit ''id'', lit ''head-id'']),
       ([], [(lit ''id'', lit ''3''), (lit ''head-id'', lit ''0'')], [lit ''id'', lit ''head-id''])]"]
  by (simp add: atomic_def tok_id_def dict_get_def is_hyphen_id_def str_nat.simps)

text \<open>
  Two different tokens that both arrive with the old id 5 leave with the same new id 1:
  the two atomic tokens do not get the ids 1 and 2.
\<close>

theorem renumber_reused_id_counterexample:
  "map tok_id (filter atomic (rewrite_tokens
     [([], [(lit ''id'', lit ''5''), (lit ''form'', lit ''a'')], [lit ''id'', lit ''form'']),
      ([], [(lit ''id'', lit ''5''), (lit ''form'', lit ''b'')], [lit ''id'', lit ''form''])]))
   = [lit ''1'', lit ''1'']"
  by code_simp

subsection \<open>Heads the id map does not know\<close>

text \<open>
  Claim C2, as the code has it. A head that is present, is neither empty nor \<open>_\<close>, and
  is not a key of the id map (a dangling head) leaves stage 42 exactly as it came: it is
  not dropped and not repaired. The pass has no channel on which a fault could be
  reported.
\<close>

theorem dangling_head_passed_through:
  assumes "i < length ts"
    and "tok_head (ts ! i) = Some h"
    and "h \<noteq> []" and "h \<noteq> lit ''_''"
    and "build_id_mapping ts h = None"
  shows "tok_head (rewrite_tokens ts ! i) = Some h"
proof -
  obtain indent attrs order where t: "ts ! i = (indent, attrs, order)"
    by (cases "ts ! i")
  have "rewrite_tokens ts ! i = rewrite_token (build_id_mapping ts) (ts ! i)"
    using assms(1) by (simp add: rewrite_tokens_def)
  moreover have "dict_get attrs (lit ''head-id'') = Some h"
    using assms(2) t by (simp add: tok_head_def)
  ultimately show ?thesis
    using assms(3-5) t
    by (simp add: tok_head_def rewrite_token_def rewrite_attrs_def Let_def dict_get_set
        map_head_id_def split: option.splits)
qed

theorem dangling_head_passed_through_witness:
  "tok_head (rewrite_tokens
     [([], [(lit ''id'', lit ''5''), (lit ''head-id'', lit ''9'')], [lit ''id'', lit ''head-id''])]
     ! 0) = Some (lit ''9'')"
  using dangling_head_passed_through[of 0
     "[([], [(lit ''id'', lit ''5''), (lit ''head-id'', lit ''9'')], [lit ''id'', lit ''head-id''])]"
     "lit ''9''"]
  by (simp add: tok_head_def dict_get_def build_id_mapping_def is_hyphen_id_def)

text \<open>
  A sentence of one token with id 1 whose head 9 names no token. With \<open>verbose\<close> set,
  the pass returns the line with the head 9 still on it and prints nothing.
\<close>

theorem dangling_head_silent_counterexample:
  "process_token_buf True
     [(lit ''  '', [(lit ''id'', lit ''1''), (lit ''head-id'', lit ''9'')], [lit ''id'', lit ''head-id''])]
   = ([lit ''  <token id='' @ quoted (lit ''1'') @ lit '' head-id='' @ quoted (lit ''9'')
        @ lit '' />'' @ [10]], [])"
  by code_simp

subsection \<open>Renumbering a renumbered sentence\<close>

text \<open>
  Claim C7. When the atomic ids of a sentence are already \<open>1..N\<close> in order, running
  the stage-42 pass on its own output changes nothing: the second run returns the tokens
  of the first. No condition on the hyphenated span ids is needed for this.
\<close>

theorem renumber_idempotent:
  assumes "ids_sequential ts"
  shows "rewrite_tokens (rewrite_tokens ts) = rewrite_tokens ts"
proof -
  let ?m = "build_id_mapping ts"
  have idm: "id_on_dom ?m" using assms by (rule build_id_mapping_identity)
  have "map tok_id (rewrite_tokens ts) = map tok_id ts"
    by (simp add: rewrite_tokens_def tok_id_rewrite_identity[OF idm])
  then have m2: "build_id_mapping (rewrite_tokens ts) = ?m" by (rule build_id_mapping_cong)
  have "rewrite_token ?m (rewrite_token ?m t) = rewrite_token ?m t" for t
    by (cases t) (simp add: rewrite_token_def rewrite_attrs_idem[OF idm])
  then show ?thesis
    unfolding rewrite_tokens_def[of "rewrite_tokens ts"] m2
    by (simp add: rewrite_tokens_def)
qed


theorem renumber_idempotent_witness:
  "ids_sequential
     [([], [(lit ''id'', lit ''1-2'')], [lit ''id'']),
      ([], [(lit ''id'', lit ''1''), (lit ''head-id'', lit ''2'')], [lit ''id'', lit ''head-id'']),
      ([], [(lit ''id'', lit ''2''), (lit ''head-id'', lit ''_'')], [lit ''id'', lit ''head-id'']),
      ([], [(lit ''id'', lit ''3''), (lit ''rel'', lit ''1:x'')], [lit ''id'', lit ''rel''])]
   \<and> rewrite_tokens (rewrite_tokens
     [([], [(lit ''id'', lit ''1-2'')], [lit ''id'']),
      ([], [(lit ''id'', lit ''1''), (lit ''head-id'', lit ''2'')], [lit ''id'', lit ''head-id'']),
      ([], [(lit ''id'', lit ''2''), (lit ''head-id'', lit ''_'')], [lit ''id'', lit ''head-id'']),
      ([], [(lit ''id'', lit ''3''), (lit ''rel'', lit ''1:x'')], [lit ''id'', lit ''rel''])])
   = rewrite_tokens
     [([], [(lit ''id'', lit ''1-2'')], [lit ''id'']),
      ([], [(lit ''id'', lit ''1''), (lit ''head-id'', lit ''2'')], [lit ''id'', lit ''head-id'']),
      ([], [(lit ''id'', lit ''2''), (lit ''head-id'', lit ''_'')], [lit ''id'', lit ''head-id'']),
      ([], [(lit ''id'', lit ''3''), (lit ''rel'', lit ''1:x'')], [lit ''id'', lit ''rel''])]"
proof -
  have h: "ids_sequential
     [([], [(lit ''id'', lit ''1-2'')], [lit ''id'']),
      ([], [(lit ''id'', lit ''1''), (lit ''head-id'', lit ''2'')], [lit ''id'', lit ''head-id'']),
      ([], [(lit ''id'', lit ''2''), (lit ''head-id'', lit ''_'')], [lit ''id'', lit ''head-id'']),
      ([], [(lit ''id'', lit ''3''), (lit ''rel'', lit ''1:x'')], [lit ''id'', lit ''rel''])]"
    by code_simp
  show ?thesis using h renumber_idempotent[OF h] by simp
qed

section \<open>Properties of the exclamation stage\<close>

lemma str_int_digit: "0 \<le> i \<Longrightarrow> i < 10 \<Longrightarrow> str_int i = [48 + nat i]"
  by (simp add: str_int_def str_nat.simps)

lemma fix1:
  "fst (fix_exclamations
     [tk\<lparr>id' := lit ''1'', form := [1329, 1410, 1377, 1372, 1394], mwt_span := None\<rparr>])
   = [make_mwt [1329, 1410, 1377, 1372, 1394] 2,
      tk\<lparr>id' := lit ''BASE'', form := [1329, 1410, 1377, 1394], mwt_span := None\<rparr>,
      punct_token (lit ''EXCL'') 1372]"
  by (simp add: split_exclamation_def EXCL_def LEFT_GUIL_def Let_def)

lemma ren1:
  "renumber_ids
     [make_mwt frm 2, b\<lparr>id' := lit ''BASE'', form := f, mwt_span := None\<rparr>, punct_token (lit ''EXCL'') 1372]
     1 Map.empty
   = Inr ([(make_mwt frm 2)\<lparr>id' := lit ''1-2''\<rparr>, b\<lparr>id' := lit ''1'', form := f, mwt_span := None\<rparr>,
           (punct_token (lit ''EXCL'') 1372)\<lparr>id' := lit ''2''\<rparr>], Map.empty)"
  by (simp add: make_mwt_def punct_token_def py_isdigit_def is_digit_def str_int_digit numeral_2_eq_2)

lemma index_of_skip: "id' y \<noteq> id' x \<Longrightarrow> index_of (y # ys) x = Suc (index_of ys x)"
  by auto

lemma index_of_hit: "index_of (x # ys) x = 0"
  by simp

lemma upt3: "[0..<3] = [0, 1, 2]"
  by (simp add: upt_rec numeral_3_eq_3)

lemma prev_atomic_1: "prev_atomic r 1 = (if has_hyphen (id' (r ! 0)) then None else Some 0)"
  by (simp add: One_nat_def[symmetric] del: One_nat_def) (simp add: One_nat_def)

lemma prev_atomic_2: "prev_atomic r 2 = (if has_hyphen (id' (r ! 1)) then prev_atomic r 1 else Some 1)"
  by (simp add: numeral_2_eq_2)

lemma prev_atomic_3: "prev_atomic r 3 = (if has_hyphen (id' (r ! 2)) then prev_atomic r 2 else Some 2)"
  by (simp add: numeral_3_eq_3 numeral_2_eq_2)

lemma hyphen_lits: "has_hyphen (lit ''1-2'')" "has_hyphen (lit ''1-3'')" "\<not> has_hyphen (lit ''1'')"
  "\<not> has_hyphen (lit ''2'')" "\<not> has_hyphen (lit ''3'')"
  by (simp_all add: has_hyphen_def)

lemma heads1:
  "fix_heads Map.empty
     [(make_mwt frm 2)\<lparr>id' := lit ''1-2''\<rparr>, b\<lparr>id' := lit ''1'', form := f, mwt_span := None\<rparr>,
      (punct_token (lit ''EXCL'') 1372)\<lparr>id' := lit ''2''\<rparr>]
   = [(make_mwt frm 2)\<lparr>id' := lit ''1-2''\<rparr>, b\<lparr>id' := lit ''1'', form := f, mwt_span := None\<rparr>,
      (punct_token (lit ''EXCL'') 1372)\<lparr>id' := lit ''2'', head := lit ''1''\<rparr>]"
proof -
  define M where "M = (make_mwt frm 2)\<lparr>id' := lit ''1-2''\<rparr>"
  define B where "B = b\<lparr>id' := lit ''1'', form := f, mwt_span := None\<rparr>"
  define E where "E = (punct_token (lit ''EXCL'') 1372)\<lparr>id' := lit ''2''\<rparr>"
  have ids: "id' M = lit ''1-2''" "id' B = lit ''1''" "id' E = lit ''2''"
    by (simp_all add: M_def B_def E_def)
  have hE: "head E = lit ''BASE''" by (simp add: E_def punct_token_def)
  have neq: "M \<noteq> B" "M \<noteq> E" "B \<noteq> E" using ids by auto
  have s0: "fix_head_at Map.empty [M, B, E] 0 = [M, B, E]"
    by (simp add: fix_head_at_def ids has_hyphen_def del: map_eq_conv)
  have s1: "fix_head_at Map.empty [M, B, E] 1 = [M, B, E]"
    by (simp add: fix_head_at_def Let_def ids has_hyphen_def neq prev_atomic_1)
  have s2: "fix_head_at Map.empty [M, B, E] 2 = [M, B, E\<lparr>head := lit ''1''\<rparr>]"
    by (simp add: fix_head_at_def Let_def ids has_hyphen_def neq hE py_isdigit_def is_digit_def
        prev_atomic_2)
  have s1': "fix_head_at Map.empty [M, B, E] (Suc 0) = [M, B, E]"
    using s1 by simp
  have s2': "fix_head_at Map.empty [M, B, E] (Suc (Suc 0)) = [M, B, E\<lparr>head := lit ''1''\<rparr>]"
    using s2 by (simp only: numeral_2_eq_2)
  have "fix_heads Map.empty [M, B, E] = [M, B, E\<lparr>head := lit ''1''\<rparr>]"
    unfolding fix_heads_def by (simp add: s0 s1' s2')
  then show ?thesis by (simp add: M_def B_def E_def)
qed


subsection \<open>The worked example\<close>

text \<open>
  Claim C9. A sentence of the single token with id 1 and form \<open>U+0531 U+0582 U+0561 U+055C
  U+0572\<close> (the word with the exclamation mark inside), whatever its other columns, leaves
  the split and the renumbering as three lines: the span line \<open>1-2\<close> with the original
  form, the base token 1 with the mark removed, and the punctuation token 2 with the mark
  as form, head 1 and relation \<open>punct\<close>.
\<close>

theorem awagh_example:
  "process_sentence03
     [tk\<lparr>id' := lit ''1'', form := [1329, 1410, 1377, 1372, 1394], mwt_span := None\<rparr>]
   = Inr [(make_mwt [1329, 1410, 1377, 1372, 1394] 2)\<lparr>id' := lit ''1-2''\<rparr>,
          tk\<lparr>id' := lit ''1'', form := [1329, 1410, 1377, 1394], mwt_span := None\<rparr>,
          (punct_token (lit ''EXCL'') 1372)\<lparr>id' := lit ''2'', head := lit ''1''\<rparr>]"
proof -
  have R: "renumber_ids
     [make_mwt [1329, 1410, 1377, 1372, 1394] 2,
      tk\<lparr>id' := lit ''BASE'', form := [1329, 1410, 1377, 1394], mwt_span := None\<rparr>,
      punct_token (lit ''EXCL'') 1372] 1 Map.empty
   = Inr ([(make_mwt [1329, 1410, 1377, 1372, 1394] 2)\<lparr>id' := lit ''1-2''\<rparr>,
           tk\<lparr>id' := lit ''1'', form := [1329, 1410, 1377, 1394], mwt_span := None\<rparr>,
           (punct_token (lit ''EXCL'') 1372)\<lparr>id' := lit ''2''\<rparr>], Map.empty)"
    by (rule ren1)
  have H: "fix_heads Map.empty
     [(make_mwt [1329, 1410, 1377, 1372, 1394] 2)\<lparr>id' := lit ''1-2''\<rparr>,
      tk\<lparr>id' := lit ''1'', form := [1329, 1410, 1377, 1394], mwt_span := None\<rparr>,
      (punct_token (lit ''EXCL'') 1372)\<lparr>id' := lit ''2''\<rparr>]
   = [(make_mwt [1329, 1410, 1377, 1372, 1394] 2)\<lparr>id' := lit ''1-2''\<rparr>,
      tk\<lparr>id' := lit ''1'', form := [1329, 1410, 1377, 1394], mwt_span := None\<rparr>,
      (punct_token (lit ''EXCL'') 1372)\<lparr>id' := lit ''2'', head := lit ''1''\<rparr>]"
    by (rule heads1)
  show ?thesis
    unfolding process_sentence03_def renumber_preserving_mwts_def fix1 R
    by (simp only: sum.case prod.case H)
qed


subsection \<open>The head of the exclamation token behind a guillemet\<close>

text \<open>
  Claim C3 at the three-member span. The single token with id 1 and the form
  \<open>U+00AB U+0531 U+0582 U+0561 U+055C U+0572\<close> (the word of C9 behind a left guillemet) is
  split into the base, the guillemet and the exclamation token. The second loop of
  \<open>renumber_preserving_mwts\<close> scans back from a placeholder head to the nearest line that
  is not a span line: for the guillemet that is the base, for the exclamation token it is
  the guillemet. The exclamation token leaves with head 2, not with head 1, the first
  member of its span.
\<close>

theorem guillemet_exclamation_head:
  "process_sentence03
     [\<lparr>id' = lit ''1'', form = [171, 1329, 1410, 1377, 1372, 1394], lemma' = lit ''_'',
       upos = lit ''INTJ'', xpos = lit ''_'', feats = lit ''_'', head = lit ''0'',
       deprel = lit ''root'', deps = lit ''_'', misc = lit ''_'', mwt_span = None\<rparr>]
   = Inr
     [\<lparr>id' = lit ''1-3'', form = [171, 1329, 1410, 1377, 1372, 1394], lemma' = lit ''_'',
       upos = lit ''_'', xpos = lit ''_'', feats = lit ''_'', head = lit ''_'',
       deprel = lit ''_'', deps = lit ''_'', misc = lit ''_'', mwt_span = Some 3\<rparr>,
      \<lparr>id' = lit ''1'', form = [1329, 1410, 1377, 1394], lemma' = lit ''_'',
       upos = lit ''INTJ'', xpos = lit ''_'', feats = lit ''_'', head = lit ''0'',
       deprel = lit ''root'', deps = lit ''_'', misc = lit ''_'', mwt_span = None\<rparr>,
      \<lparr>id' = lit ''2'', form = [171], lemma' = [171],
       upos = lit ''PUNCT'', xpos = lit ''_'', feats = lit ''_'', head = lit ''1'',
       deprel = lit ''punct'', deps = lit ''_'', misc = lit ''_'', mwt_span = None\<rparr>,
      \<lparr>id' = lit ''3'', form = [1372], lemma' = [1372],
       upos = lit ''PUNCT'', xpos = lit ''_'', feats = lit ''_'', head = lit ''2'',
       deprel = lit ''punct'', deps = lit ''_'', misc = lit ''_'', mwt_span = None\<rparr>]"
  by code_simp

subsection \<open>The forms of the parts\<close>











section \<open>Properties of the CoNLL-U readers\<close>

lemma split_char_nonempty: "split_char sep s \<noteq> []"
  by (induction s) (auto split: list.splits)

lemma join_split_char: "py_join [sep] (split_char sep s) = s"
proof (induction s)
  case Nil
  then show ?case by simp
next
  case (Cons c s)
  obtain w ws where sp: "split_char sep s = w # ws"
    using split_char_nonempty[of sep s] by (cases "split_char sep s") auto
  show ?case
  proof (cases "c = sep")
    case True
    then show ?thesis using Cons sp by simp
  next
    case False
    then show ?thesis using Cons sp by (cases ws) auto
  qed
qed

lemma rstrip_newline_id: "10 \<notin> set s \<Longrightarrow> rev (dropWhile (\<lambda>c. c = 10) (rev s)) = s"
proof -
  assume a: "10 \<notin> set s"
  have "rev s = [] \<or> hd (rev s) \<noteq> 10"
    using a by (metis hd_in_set set_rev)
  then have "dropWhile (\<lambda>c. c = 10) (rev s) = rev s"
    by (simp add: dropWhile_eq_self_iff)
  then show ?thesis by simp
qed

lemma first_ten:
  assumes "10 \<le> length cols"
  shows "[cols ! 0, cols ! 1, cols ! 2, cols ! 3, cols ! 4, cols ! 5, cols ! 6, cols ! 7,
          cols ! 8, cols ! 9] = take 10 cols"
  using assms by (auto simp: numeral_eq_Suc Suc_le_length_iff)


lemma from_line_long:
  assumes "10 \<le> length (split_char 9 l)" and "10 \<notin> set l"
  shows "\<exists>t. from_line l = Some t \<and> to_line t = py_join [9] (take 10 (split_char 9 l))"
proof -
  let ?cols = "split_char 9 l"
  let ?t = "\<lparr>id' = ?cols ! 0, form = ?cols ! 1, lemma' = ?cols ! 2, upos = ?cols ! 3,
              xpos = ?cols ! 4, feats = ?cols ! 5, head = ?cols ! 6, deprel = ?cols ! 7,
              deps = ?cols ! 8, misc = ?cols ! 9, mwt_span = None\<rparr>"
  have "from_line l = Some ?t"
    using assms by (simp add: from_line_def rstrip_newline_id Let_def)
  moreover have "to_line ?t = py_join [9] (take 10 ?cols)"
    unfolding to_line_def Token.select_convs first_ten[OF assms(1)] ..
  ultimately show ?thesis by blast
qed



subsection \<open>Lines with the wrong number of columns\<close>




section \<open>Properties of the root collapse\<close>










lemma demote_roots_single: "demote_roots [e] toks = toks"
  by simp







subsection \<open>One root per sentence\<close>




section \<open>Properties of the \<open>ibrew z\<close> split\<close>


lemma find_first_None: "find_first P xs = None \<Longrightarrow> \<forall>x\<in>set xs. \<not> P x"
  by (induction xs) (auto split: if_splits option.splits)








subsection \<open>What the \<open>ibrew z\<close> split leaves alone\<close>




section \<open>Reading back what was written\<close>

lemma split_blank_nonempty: "split_blank s \<noteq> []"
  by (induction s rule: split_blank.induct) (auto split: list.splits)

lemma split_blank_whole: "no_blank s \<Longrightarrow> split_blank s = [s]"
proof (induction s rule: split_blank.induct)
  case 1
  then show ?case by simp
next
  case (2 c)
  then show ?case by simp
next
  case (3 c d cs)
  then show ?case by auto
qed

lemma split_blank_first:
  "s \<noteq> [] \<Longrightarrow> last s \<noteq> 10 \<Longrightarrow> no_blank s
     \<Longrightarrow> split_blank (s @ 10 # 10 # rest) = s # split_blank rest"
proof (induction s rule: split_blank.induct)
  case 1
  then show ?case by simp
next
  case (2 c)
  then show ?case by simp
next
  case (3 c d cs)
  then have "split_blank ((d # cs) @ 10 # 10 # rest) = (d # cs) # split_blank rest"
    by auto
  moreover have "\<not> (c = 10 \<and> d = 10)" using "3.prems" by simp
  ultimately show ?case by simp
qed

lemma no_blank_free: "10 \<notin> set l \<Longrightarrow> no_blank l"
  by (induction l rule: no_blank.induct) auto

lemma no_blank_append:
  "10 \<notin> set l \<Longrightarrow> no_blank (10 # s) \<Longrightarrow> no_blank (l @ 10 # s)"
  by (induction l rule: no_blank.induct) auto

lemma no_blank_snoc: "s \<noteq> [] \<Longrightarrow> last s \<noteq> 10 \<Longrightarrow> no_blank s \<Longrightarrow> no_blank (s @ [10])"
  by (induction s rule: no_blank.induct) auto

lemma splitlines_line:
  "list_all (\<lambda>c. \<not> is_linebreak c) l \<Longrightarrow> splitlines (l @ 10 # rest) = l # splitlines rest"
proof (induction l)
  case Nil
  then show ?case by (cases rest) (simp_all add: is_linebreak_def)
next
  case (Cons c l)
  then have c: "\<not> is_linebreak c" "c \<noteq> 13" by (auto simp: is_linebreak_def)
  obtain d ds where ds: "l @ 10 # rest = d # ds" by (cases "l @ 10 # rest") auto
  have "splitlines (d # ds) = l # splitlines rest" using Cons ds by simp
  then show ?case using c ds by simp
qed

lemma splitlines_single:
  "list_all (\<lambda>c. \<not> is_linebreak c) l \<Longrightarrow> l \<noteq> [] \<Longrightarrow> splitlines l = [l]"
proof (induction l rule: splitlines.induct)
  case 1
  then show ?case by simp
next
  case (2 c)
  then show ?case by simp
next
  case (3 c d cs)
  then show ?case by (auto simp: is_linebreak_def)
qed

lemma splitlines_block_text:
  "list_all (\<lambda>l. list_all (\<lambda>c. \<not> is_linebreak c) l) b \<Longrightarrow> splitlines (block_text b) = b"
  by (induction b) (simp_all add: block_text_def splitlines_line)

lemma block_text_join: "b \<noteq> [] \<Longrightarrow> block_text b = py_join [10] b @ [10]"
  by (induction b rule: induct_list012) (simp_all add: block_text_def)


lemma tidy_no_newline: "tidy l \<Longrightarrow> 10 \<notin> set l"
  by (auto simp: tidy_def list_all_iff is_linebreak_def)

lemma join_tidy:
  assumes "b \<noteq> []" and "list_all tidy b"
  shows "py_join [10] b \<noteq> [] \<and> hd (py_join [10] b) \<noteq> 10 \<and> last (py_join [10] b) \<noteq> 10
    \<and> no_blank (py_join [10] b) \<and> splitlines (py_join [10] b) = b"
  using assms
proof (induction b rule: induct_list012)
  case 1
  then show ?case by simp
next
  case (2 x)
  then have t: "tidy x" by simp
  then have "10 \<notin> set x" by (rule tidy_no_newline)
  moreover have "x \<noteq> []" using t by (simp add: tidy_def)
  ultimately have "hd x \<noteq> 10" "last x \<noteq> 10" by (metis hd_in_set, metis last_in_set)
  then show ?case
    using t \<open>10 \<notin> set x\<close> by (simp add: tidy_def no_blank_free splitlines_single)
next
  case (3 x y ys)
  let ?J = "py_join [10] (y # ys)"
  have IH: "?J \<noteq> [] \<and> hd ?J \<noteq> 10 \<and> last ?J \<noteq> 10 \<and> no_blank ?J \<and> splitlines ?J = y # ys"
    using 3 by simp
  have t: "tidy x" using "3.prems" by simp
  then have nx: "10 \<notin> set x" by (rule tidy_no_newline)
  have xne: "x \<noteq> []" using t by (simp add: tidy_def)
  then have hx: "hd x \<noteq> 10" using nx by (metis hd_in_set)
  obtain c cs where J: "?J = c # cs" using IH by (cases ?J) auto
  then have "c \<noteq> 10" using IH by simp
  then have nb: "no_blank (10 # ?J)" using IH J by simp
  have eq: "py_join [10] (x # y # ys) = x @ 10 # ?J" by simp
  have "no_blank (x @ 10 # ?J)" using nx nb by (rule no_blank_append)
  moreover have "splitlines (x @ 10 # ?J) = x # y # ys"
    using t IH by (simp add: tidy_def splitlines_line)
  moreover have "last (x @ 10 # ?J) \<noteq> 10" using IH by simp
  moreover have "hd (x @ 10 # ?J) \<noteq> 10" using hx xne by simp
  ultimately show ?case unfolding eq by simp
qed

lemma strip_nonempty: "py_strip s \<noteq> [] \<longleftrightarrow> (\<exists>c\<in>set s. \<not> is_space c)"
proof -
  have a: "dropWhile is_space s = [] \<longleftrightarrow> (\<forall>c\<in>set s. is_space c)"
    by (simp add: dropWhile_eq_Nil_conv)
  have b: "dropWhile is_space (rev (dropWhile is_space s)) = [] \<longleftrightarrow> dropWhile is_space s = []"
  proof (cases "dropWhile is_space s")
    case Nil
    show ?thesis unfolding Nil by simp
  next
    case (Cons c cs)
    then have "\<not> is_space c" using hd_dropWhile[of is_space s] by simp
    then have "\<not> (\<forall>x\<in>set (rev (dropWhile is_space s)). is_space x)" using Cons by auto
    then show ?thesis using Cons by (simp add: dropWhile_eq_Nil_conv)
  qed
  have "py_strip s = [] \<longleftrightarrow> (\<forall>c\<in>set s. is_space c)"
    by (simp only: py_strip_def rev_is_Nil_conv b a)
  then show ?thesis by blast
qed

lemma comment_nonblank: "is_comment l \<Longrightarrow> py_strip l \<noteq> []"
  unfolding strip_nonempty by (cases l) (auto simp: is_comment_def is_space_def)

lemma plain_line_nonblank: "plain_line l \<Longrightarrow> py_strip l \<noteq> []"
  using comment_nonblank by (auto simp: plain_line_def)

lemma plain_line_tidy: "plain_line l \<Longrightarrow> tidy l"
  using plain_line_nonblank[of l] by (auto simp: plain_line_def tidy_def py_strip_def)


lemma join_has_first: "set x \<subseteq> set (py_join sep (x # xs))"
  by (cases xs) auto

lemma read_conllu_file_text:
  "list_all (\<lambda>b. b \<noteq> [] \<and> list_all plain_line b) blocks
     \<Longrightarrow> read_conllu (file_text blocks) = map read_lines blocks"
proof (induction blocks rule: induct_list012)
  case 1
  show ?case by (simp add: read_conllu_def file_text_def py_strip_def)
next
  case (2 b)
  then have b: "b \<noteq> []" "list_all tidy b" "list_all plain_line b"
    by (auto simp: list_all_iff plain_line_tidy)
  note J = join_tidy[OF b(1,2)]
  have nb: "no_blank (block_text b)"
    unfolding block_text_join[OF b(1)] using J by (simp add: no_blank_snoc)
  have sp: "py_strip (block_text b) \<noteq> []"
    unfolding strip_nonempty using b plain_line_nonblank[of "hd b"]
    by (cases b) (auto simp: block_text_def strip_nonempty)
  have "splitlines (block_text b) = b"
    by (rule splitlines_block_text) (use b(2) in \<open>auto simp: list_all_iff tidy_def\<close>)
  then show ?case
    by (simp add: read_conllu_def file_text_def split_blank_whole[OF nb] sp)
next
  case (3 b b' bs)
  then have b: "b \<noteq> []" "list_all tidy b" "list_all plain_line b"
    by (auto simp: list_all_iff plain_line_tidy)
  note J = join_tidy[OF b(1,2)]
  let ?J = "py_join [10] b"
  have ft: "file_text (b # b' # bs) = ?J @ 10 # 10 # file_text (b' # bs)"
    by (simp add: file_text_def block_text_join[OF b(1)])
  have sb: "split_blank (file_text (b # b' # bs)) = ?J # split_blank (file_text (b' # bs))"
    unfolding ft using J by (simp add: split_blank_first)
  have sp: "py_strip ?J \<noteq> []"
  proof -
    have "\<exists>c\<in>set (hd b). \<not> is_space c"
      using b plain_line_nonblank[of "hd b"] by (cases b) (auto simp: strip_nonempty)
    moreover have "set (hd b) \<subseteq> set ?J" using b(1) join_has_first[of "hd b" "[10]" "tl b"]
      by (cases b) auto
    ultimately show ?thesis unfolding strip_nonempty by blast
  qed
  have IH: "read_conllu (file_text (b' # bs)) = map read_lines (b' # bs)"
    using 3 by simp
  show ?case
    using IH J sp unfolding read_conllu_def sb by simp
qed

lemma token_lines_back:
  assumes "list_all (\<lambda>l. plain_line l \<and> \<not> is_comment l) ls"
  shows "concat (map (\<lambda>t. to_line t @ [10]) (parse_token_lines ls)) = block_text ls"
  using assms
proof (induction ls)
  case Nil
  then show ?case by (simp add: parse_token_lines_def List.map_filter_def block_text_def)
next
  case (Cons l ls)
  then have l: "length (split_char 9 l) = 10" "10 \<notin> set l"
    by (auto simp: plain_line_def list_all_iff is_linebreak_def)
  then obtain t where t: "from_line l = Some t" "to_line t = py_join [9] (take 10 (split_char 9 l))"
    using from_line_long[of l] by auto
  then have "to_line t = l" using l(1) by (simp add: join_split_char)
  moreover have "concat (map (\<lambda>t. to_line t @ [10]) (parse_token_lines ls)) = block_text ls"
    using Cons by simp
  ultimately show ?case
    using t(1) by (simp add: parse_token_lines_def List.map_filter_def block_text_def)
qed

lemma write_read_block:
  assumes "plain_block b"
  shows "write_sentence (read_lines b) = block_text b"
proof -
  have pl: "list_all plain_line b" using assms by (simp add: plain_block_def)
  have f: "filter (\<lambda>ln. py_strip ln \<noteq> []) b = b"
    using pl by (auto simp: filter_id_conv list_all_iff plain_line_nonblank)
  have tl: "list_all (\<lambda>l. plain_line l \<and> \<not> is_comment l) (filter (\<lambda>l. \<not> is_comment l) b)"
    using pl by (auto simp: list_all_iff)
  have "write_sentence (read_lines b)
      = block_text (filter is_comment b) @ block_text (filter (\<lambda>l. \<not> is_comment l) b)"
    unfolding write_sentence_def read_lines_def Let_def f
    using token_lines_back[OF tl] by (simp add: is_comment_def[abs_def] block_text_def)
  also have "\<dots> = block_text (filter is_comment b @ filter (\<lambda>l. \<not> is_comment l) b)"
    by (simp add: block_text_def)
  also have "\<dots> = block_text b" using assms by (simp add: plain_block_def)
  finally show ?thesis .
qed


subsection \<open>Reading a file and writing it back\<close>

text \<open>
  Claim C5, as the code has it. Stage 03 keeps of a sentence its comment lines and the
  ten columns of its token lines, and writes the comments first, each line with a
  newline, one empty line between two sentences. So a file comes back byte for byte
  when it has that layout: its blocks are separated by one empty line, every line ends
  in a newline, and every block is a non-empty run of comment lines followed by token
  lines of exactly ten columns, none of them blank or with a line boundary inside.
\<close>

theorem parse_serialize_roundtrip:
  assumes "list_all plain_block blocks"
  shows "write_conllu (read_conllu (file_text blocks)) = file_text blocks"
proof -
  have "list_all (\<lambda>b. b \<noteq> [] \<and> list_all plain_line b) blocks"
    using assms by (auto simp: list_all_iff plain_block_def)
  then have r: "read_conllu (file_text blocks) = map read_lines blocks"
    by (rule read_conllu_file_text)
  have "map (write_sentence \<circ> read_lines) blocks = map block_text blocks"
    by (rule map_cong) (use assms in \<open>auto simp: list_all_iff write_read_block\<close>)
  then have m: "map write_sentence (map read_lines blocks) = map block_text blocks"
    by simp
  have "write_conllu (map read_lines blocks) = file_text blocks"
    by (simp only: write_conllu_def m file_text_def)
  then show ?thesis
    by (simp only: r)
qed

theorem parse_serialize_roundtrip_witness:
  "write_conllu (read_conllu (file_text
     [[lit ''# sent_id = 1'', lit ''# text = a b'',
       py_join [9] [lit ''1'', lit ''a'', lit ''a'', lit ''X'', lit ''_'', lit ''_'', lit ''2'', lit ''dep'', lit ''_'', lit ''_''],
       py_join [9] [lit ''2'', lit ''b'', lit ''b'', lit ''X'', lit ''_'', lit ''_'', lit ''0'', lit ''root'', lit ''_'', lit ''_'']],
      [lit ''# sent_id = 2'',
       py_join [9] [lit ''1'', lit ''c'', lit ''c'', lit ''X'', lit ''_'', lit ''_'', lit ''0'', lit ''root'', lit ''_'', lit ''_'']]]))
   = file_text
     [[lit ''# sent_id = 1'', lit ''# text = a b'',
       py_join [9] [lit ''1'', lit ''a'', lit ''a'', lit ''X'', lit ''_'', lit ''_'', lit ''2'', lit ''dep'', lit ''_'', lit ''_''],
       py_join [9] [lit ''2'', lit ''b'', lit ''b'', lit ''X'', lit ''_'', lit ''_'', lit ''0'', lit ''root'', lit ''_'', lit ''_'']],
      [lit ''# sent_id = 2'',
       py_join [9] [lit ''1'', lit ''c'', lit ''c'', lit ''X'', lit ''_'', lit ''_'', lit ''0'', lit ''root'', lit ''_'', lit ''_'']]]"
proof -
  define W where "W = [[lit ''# sent_id = 1'', lit ''# text = a b'',
       py_join [9] [lit ''1'', lit ''a'', lit ''a'', lit ''X'', lit ''_'', lit ''_'', lit ''2'', lit ''dep'', lit ''_'', lit ''_''],
       py_join [9] [lit ''2'', lit ''b'', lit ''b'', lit ''X'', lit ''_'', lit ''_'', lit ''0'', lit ''root'', lit ''_'', lit ''_'']],
      [lit ''# sent_id = 2'',
       py_join [9] [lit ''1'', lit ''c'', lit ''c'', lit ''X'', lit ''_'', lit ''_'', lit ''0'', lit ''root'', lit ''_'', lit ''_'']]]"
  have h: "list_all plain_block W"
    unfolding W_def by code_simp
  have "write_conllu (read_conllu (file_text W)) = file_text W"
    using parse_serialize_roundtrip[OF h] .
  then show ?thesis
    unfolding W_def .
qed

text \<open>
  A file of one sentence: a token line of eleven columns, then a comment. It comes back
  with the comment first and the token line cut to ten columns.
\<close>

theorem parse_serialize_counterexample:
  "write_conllu (read_conllu
     (py_join [9] [lit ''1'', lit ''a'', lit ''a'', lit ''X'', lit ''_'', lit ''_'', lit ''0'', lit ''root'', lit ''_'', lit ''_'', lit ''extra''] @ [10]
      @ lit ''# note'' @ [10]))
   = lit ''# note'' @ [10]
      @ py_join [9] [lit ''1'', lit ''a'', lit ''a'', lit ''X'', lit ''_'', lit ''_'', lit ''0'', lit ''root'', lit ''_'', lit ''_''] @ [10]"
  by code_simp
end
